theory Spec2Isabelle
  imports Complex_Main "HOL-Library.AList" "HOL-Library.Sublist"
begin

section \<open>Data model (src/dbi/core/model.py)\<close>

text \<open>
  The dataclasses of \<^verbatim>\<open>model.py\<close> become records. Field names carry a short prefix
  where the Python name would otherwise shadow a variable (\<^verbatim>\<open>x\<close>, \<^verbatim>\<open>gid\<close>, \<^verbatim>\<open>A\<close>, ...).
  NumPy arrays are lists; \<^verbatim>\<open>float\<close> values are modelled by \<^typ>\<open>real\<close> (they are only
  stored, compared and subtracted here); the \<^verbatim>\<open>int32\<close> labels and \<^verbatim>\<open>int64\<close> ids are
  \<^typ>\<open>int\<close>, and a write into the \<^verbatim>\<open>int32\<close> label array casts the values to 32 bits
  (\<open>to_int32\<close>, \<open>np_put_int32\<close> below), as the array does.
  A Python \<^verbatim>\<open>dict\<close> keeps insertion order, so the group table is an association list
  with \<^const>\<open>AList.update\<close> (replace in place, else append) and \<^const>\<open>AList.delete\<close>.
  A stack is a Python list whose top is its last element.
\<close>

datatype error =
  IndexError | ValueError | KeyError | TypeError | OverflowError | NoActiveGroup
  | OutsideInt64

record Box =
  xlo :: real
  xhi :: real
  ylo :: real
  yhi :: real
  zlo :: real
  zhi :: real

record DataSet =
  d_ids :: "int list"
  d_x :: "real list"
  d_y :: "real list"
  d_z :: "real list"
  d_box :: Box

record Group =
  g_gid :: int
  g_name :: string
  g_color :: "int list"
  g_direction :: "real list"

record BreatherParams =
  br_A :: real
  br_beta :: real
  br_x0 :: real
  br_y0 :: real

record Edit =
  e_indices :: "nat list"
  e_before :: "int list"
  e_after :: "int list"
  e_description :: string

record ProjectState =
  data :: DataSet
  assignment :: "int list"
  groups :: "(int \<times> Group) list"
  undo_stack :: "Edit list"
  redo_stack :: "Edit list"
  max_history :: int
  breather :: BreatherParams
  apply_localizing :: bool
  preserve_base_selection :: bool

subsection \<open>NumPy index operations\<close>

text \<open>\<^verbatim>\<open>a[idx]\<close> with an integer index array: IndexError when an index is out of range.\<close>

definition np_take :: "'a list \<Rightarrow> nat list \<Rightarrow> error + 'a list" where
  "np_take a idx =
     (if list_all (\<lambda>i. i < length a) idx then Inr (map (\<lambda>i. a ! i) idx) else Inl IndexError)"

text \<open>The writes of \<^verbatim>\<open>a[idx] = vals\<close>, in index order (a later duplicate wins).\<close>

fun put_all :: "'a list \<Rightarrow> nat list \<Rightarrow> 'a list \<Rightarrow> 'a list" where
  "put_all a [] vs = a"
| "put_all a (i # idx) [] = a"
| "put_all a (i # idx) (v # vs) = put_all (a[i := v]) idx vs"

text \<open>Broadcasting of a one-dimensional value array to \<open>n\<close> entries.\<close>

definition broadcast_to :: "'a list \<Rightarrow> nat \<Rightarrow> 'a list option" where
  "broadcast_to vals n =
     (if length vals = n then Some vals
      else if length vals = 1 then Some (replicate n (hd vals))
      else None)"

text \<open>\<^verbatim>\<open>a[idx] = vals\<close>: IndexError out of range, ValueError on a shape mismatch.\<close>

definition np_put :: "'a list \<Rightarrow> nat list \<Rightarrow> 'a list \<Rightarrow> error + 'a list" where
  "np_put a idx vals =
     (if \<not> list_all (\<lambda>i. i < length a) idx then Inl IndexError
      else case broadcast_to vals (length idx) of
             None \<Rightarrow> Inl ValueError
           | Some vs \<Rightarrow> Inr (put_all a idx vs))"

text \<open>
  The cast of an integer to \<^verbatim>\<open>int32\<close> (two's complement wrap-around), and the write
  \<^verbatim>\<open>a[idx] = vals\<close> into an \<^verbatim>\<open>int32\<close> array \<open>a\<close>, which casts the values it stores.
\<close>

definition to_int32 :: "int \<Rightarrow> int" where
  "to_int32 i = (i + 2 ^ 31) mod 2 ^ 32 - 2 ^ 31"

definition np_put_int32 :: "int list \<Rightarrow> nat list \<Rightarrow> int list \<Rightarrow> error + int list" where
  "np_put_int32 a idx vals = np_put a idx (map to_int32 vals)"

text \<open>\<^verbatim>\<open>np.unique\<close>: the sorted distinct elements.\<close>

definition np_unique :: "nat list \<Rightarrow> nat list" where
  "np_unique idx = sort (remdups idx)"

subsection \<open>Decimal text of a number (for the f-strings of the descriptions)\<close>

function str_nat :: "nat \<Rightarrow> string" where
  "str_nat n =
     (if n < 10 then [''0123456789'' ! n]
      else str_nat (n div 10) @ [''0123456789'' ! (n mod 10)])"
  by pat_completeness auto
termination
  by (relation "measure (\<lambda>n. n)") auto

definition str_int :: "int \<Rightarrow> string" where
  "str_int i = (if i < 0 then CHR ''-'' # str_nat (nat (- i)) else str_nat (nat i))"

subsection \<open>ProjectState methods\<close>

text \<open>\<^verbatim>\<open>clear_groups\<close>: empties the table and both stacks, zeroes every label.\<close>

definition clear_groups :: "ProjectState \<Rightarrow> ProjectState" where
  "clear_groups s =
     s\<lparr>groups := [], assignment := map (\<lambda>_. 0) (assignment s),
       undo_stack := [], redo_stack := []\<rparr>"

text \<open>\<^verbatim>\<open>add_group\<close>: the new group has the default direction \<open>(1.0, 0.0, 0.0)\<close>.\<close>

definition add_group :: "int \<Rightarrow> string \<Rightarrow> int list \<Rightarrow> ProjectState \<Rightarrow> Group \<times> ProjectState" where
  "add_group gid nm col s =
     (let g = \<lparr>g_gid = gid, g_name = nm, g_color = col, g_direction = [1, 0, 0]\<rparr>
      in (g, s\<lparr>groups := AList.update gid g (groups s)\<rparr>))"

text \<open>
  \<^verbatim>\<open>remove_group\<close>: only when the id is a key of the table, the entry is deleted and
  every label equal to the id becomes 0 (\<^verbatim>\<open>assignment[assignment == gid] = 0\<close>).
\<close>

definition remove_group :: "int \<Rightarrow> ProjectState \<Rightarrow> ProjectState" where
  "remove_group gid s =
     (if gid \<in> fst ` set (groups s)
      then s\<lparr>groups := AList.delete gid (groups s),
             assignment := map (\<lambda>l. if l = gid then 0 else l) (assignment s)\<rparr>
      else s)"

text \<open>
  \<^verbatim>\<open>colors_rgba_for_all\<close>. A row of the \<^verbatim>\<open>np.ubyte\<close> output array is written from a
  tuple of Python integers: a channel outside 0..255 raises OverflowError (NumPy 2; NumPy
  1 wraps it), a tuple that does not broadcast to four entries raises ValueError. The
  stored bytes are the integers 0..255 themselves.
\<close>

definition ubyte_row :: "int list \<Rightarrow> error + int list" where
  "ubyte_row c =
     (if \<not> list_all (\<lambda>v. 0 \<le> v \<and> v \<le> 255) c then Inl OverflowError
      else case broadcast_to c 4 of None \<Rightarrow> Inl ValueError | Some row \<Rightarrow> Inr row)"

fun color_rows :: "(int \<times> Group) list \<Rightarrow> int list \<Rightarrow> int list \<Rightarrow> error + int list list" where
  "color_rows grp un [] = Inr []"
| "color_rows grp un (l # ls) =
     (case (if l = 0 then ubyte_row un
            else case map_of grp l of
                   None \<Rightarrow> ubyte_row un
                 | Some g \<Rightarrow> ubyte_row (g_color g)) of
        Inl err \<Rightarrow> Inl err
      | Inr row \<Rightarrow>
          (case color_rows grp un ls of
             Inl err \<Rightarrow> Inl err
           | Inr rows \<Rightarrow> Inr (row # rows)))"

text \<open>The default argument \<^verbatim>\<open>rgba_unassigned=(160,160,160,255)\<close>.\<close>

definition rgba_unassigned_default :: "int list" where
  "rgba_unassigned_default = [160, 160, 160, 255]"

definition colors_rgba_for_all :: "int list \<Rightarrow> ProjectState \<Rightarrow> error + int list list" where
  "colors_rgba_for_all rgba_unassigned s = color_rows (groups s) rgba_unassigned (assignment s)"

text \<open>
  \<^verbatim>\<open>undo\<close> and \<^verbatim>\<open>redo\<close> return the edit (or None) and the new state. An exception of
  the indexed write is the \<open>Inl\<close> result. The snapshots of an edit are arrays of their
  own; what is written back into the labels is cast to \<^verbatim>\<open>int32\<close>.
\<close>

definition undo :: "ProjectState \<Rightarrow> error + (Edit option \<times> ProjectState)" where
  "undo s =
     (if undo_stack s = [] then Inr (None, s)
      else let e = last (undo_stack s) in
        (case np_put_int32 (assignment s) (e_indices e) (e_before e) of
           Inl err \<Rightarrow> Inl err
         | Inr a \<Rightarrow>
             Inr (Some e, s\<lparr>undo_stack := butlast (undo_stack s), assignment := a,
                            redo_stack := redo_stack s @ [e]\<rparr>)))"

definition redo :: "ProjectState \<Rightarrow> error + (Edit option \<times> ProjectState)" where
  "redo s =
     (if redo_stack s = [] then Inr (None, s)
      else let e = last (redo_stack s) in
        (case np_put_int32 (assignment s) (e_indices e) (e_after e) of
           Inl err \<Rightarrow> Inl err
         | Inr a \<Rightarrow>
             Inr (Some e, s\<lparr>redo_stack := butlast (redo_stack s), assignment := a,
                            undo_stack := undo_stack s @ [e]\<rparr>)))"

section \<open>Assignment mutation (MainWindow._assign_indices)\<close>

text \<open>
  Lines 1102-1110: the indexed write of the new labels, then the history push: append,
  drop the bottom entry when the stack is longer than \<^verbatim>\<open>max_history\<close>, clear the redo
  stack.
\<close>

definition commit_edit ::
  "nat list \<Rightarrow> int list \<Rightarrow> int list \<Rightarrow> string \<Rightarrow> ProjectState \<Rightarrow> error + ProjectState" where
  "commit_edit idx cur new desc s =
     (case np_put_int32 (assignment s) idx new of
        Inl err \<Rightarrow> Inl err
      | Inr a \<Rightarrow>
          (let e = \<lparr>e_indices = idx, e_before = cur, e_after = new, e_description = desc\<rparr>;
               u = undo_stack s @ [e];
               u' = (if int (length u) > max_history s then tl u else u)
           in Inr (s\<lparr>assignment := a, undo_stack := u', redo_stack := []\<rparr>)))"

text \<open>An integer in the range of the signed integers of the given width.\<close>

definition int_fits :: "nat \<Rightarrow> int \<Rightarrow> bool" where
  "int_fits bits i = (- (2 ^ (bits - 1)) \<le> i \<and> i < 2 ^ (bits - 1))"

text \<open>
  \<^verbatim>\<open>_assign_indices(indices, mode)\<close> with the window's \<^verbatim>\<open>active_group_id\<close> as \<open>gid\<close>.
  The new labels are \<^verbatim>\<open>np.zeros_like(curr)\<close>, \<^verbatim>\<open>np.where(curr == gid, 0, gid)\<close> and
  \<^verbatim>\<open>np.where(curr == gid, curr, gid)\<close>, computed on the integers and cast to \<^verbatim>\<open>int32\<close> when
  they are stored: an id beyond 32 bits is wrapped. For an id outside the 64-bit
  integers NumPy leaves its signed integer arrays (for an unsigned, floating-point or
  object array, by version); the model does not follow it there and stops with
  \<open>Inl OutsideInt64\<close>. The warning dialog of the modes toggle and add without an active
  group is the result \<open>Inl NoActiveGroup\<close>; an unknown mode returns without any change.
\<close>

definition assign_indices ::
  "int \<Rightarrow> nat list \<Rightarrow> string \<Rightarrow> ProjectState \<Rightarrow> error + ProjectState" where
  "assign_indices gid indices mode s =
     (let idx = np_unique indices in
      case np_take (assignment s) idx of
        Inl err \<Rightarrow> Inl err
      | Inr cur \<Rightarrow>
          (if mode = ''remove'' then
             commit_edit idx cur (map (\<lambda>_. 0) cur)
               (''remove '' @ str_nat (length idx)) s
           else if mode = ''toggle'' then
             (if gid = 0 then Inl NoActiveGroup
              else if \<not> int_fits 64 gid then Inl OutsideInt64
              else commit_edit idx cur (map (\<lambda>c. if c = gid then 0 else gid) cur)
                     (''toggle '' @ str_nat (length idx) @ '' to group '' @ str_int gid) s)
           else if mode = ''add'' then
             (if gid = 0 then Inl NoActiveGroup
              else if \<not> int_fits 64 gid then Inl OutsideInt64
              else commit_edit idx cur (map (\<lambda>c. if c = gid then c else gid) cur)
                     (''add '' @ str_nat (length idx) @ '' to group '' @ str_int gid) s)
           else Inr s))"

section \<open>Line selection (MainWindow.on_mouse_clicked, branch hline / vline)\<close>

text \<open>
  The fields of the window that the branch reads or writes. The data set of the window
  is \<open>data (state w)\<close>; \<open>line_spacing\<close> and \<open>line_offset\<close> are the values of the two
  spin boxes.
\<close>

record MainWindow =
  state :: ProjectState
  active_group_id :: int
  circle_enabled :: bool
  circle_center :: "(real \<times> real) option"
  circle_radius :: real
  line_spacing :: int
  line_offset :: int
  last_line_orientation :: "string option"
  last_line_indices :: "nat list option"

text \<open>
  \<^verbatim>\<open>np.argsort\<close> of a key array: the positions in ascending key order. Equal keys are kept
  in their original order here (NumPy's default sort may order ties differently).
\<close>

definition np_argsort :: "real list \<Rightarrow> nat list" where
  "np_argsort keys = map snd (sort_key fst (zip keys [0..<length keys]))"

text \<open>
  \<^verbatim>\<open>_apply_circle_constraint\<close>: a pass-through unless the mask is enabled, has a centre
  and a positive radius; else the indices whose point lies in the closed disc.
\<close>

definition apply_circle_constraint :: "MainWindow \<Rightarrow> nat list \<Rightarrow> error + nat list" where
  "apply_circle_constraint w indices =
     (case circle_center w of
        None \<Rightarrow> Inr indices
      | Some (x0, y0) \<Rightarrow>
          if \<not> (circle_enabled w \<and> circle_radius w > 0) then Inr indices
          else
            (case np_take (d_x (data (state w))) indices of
               Inl err \<Rightarrow> Inl err
             | Inr xs \<Rightarrow>
                 (case np_take (d_y (data (state w))) indices of
                    Inl err \<Rightarrow> Inl err
                  | Inr ys \<Rightarrow>
                      Inr (map fst
                            (filter (\<lambda>(i, xv, yv).
                                 (xv - x0) * (xv - x0) + (yv - y0) * (yv - y0)
                                   \<le> circle_radius w * circle_radius w)
                               (zip indices (zip xs ys)))))))"

text \<open>
  \<^verbatim>\<open>idx_sorted[np.arange(idx_sorted.size) % N == off]\<close>: the entries at the positions
  \<open>p\<close> with \<open>p mod N = off\<close>.
\<close>

definition decimate :: "int \<Rightarrow> int \<Rightarrow> 'a list \<Rightarrow> 'a list" where
  "decimate N off xs =
     map fst (filter (\<lambda>(v, p). int p mod N = off) (zip xs [0..<length xs]))"

text \<open>
  Lines 963-972 (and 985-994): the band hits \<^verbatim>\<open>np.nonzero(np.abs(across - c) <= R)[0]\<close>,
  the circle constraint, the sort along the line and the decimation. \<open>across\<close> is the
  coordinate perpendicular to the line (y for a horizontal line), \<open>along\<close> the one
  along it. The result is \<^verbatim>\<open>idx_sorted\<close> with \<^verbatim>\<open>hits\<close>; no hit at all is \<open>None\<close>.
\<close>

definition line_hits ::
  "real list \<Rightarrow> real list \<Rightarrow> real \<Rightarrow> real \<Rightarrow> int \<Rightarrow> int \<Rightarrow> MainWindow
   \<Rightarrow> error + (nat list \<times> nat list) option" where
  "line_hits across along c R N off w =
     (case apply_circle_constraint w
             (filter (\<lambda>i. \<bar>across ! i - c\<bar> \<le> R) [0..<length across]) of
        Inl err \<Rightarrow> Inl err
      | Inr idx \<Rightarrow>
          if idx = [] then Inr None
          else
            (case np_take along idx of
               Inl err \<Rightarrow> Inl err
             | Inr keys \<Rightarrow>
                 (let order = np_argsort keys;
                      idx_sorted = map (\<lambda>j. idx ! j) order
                  in Inr (Some (idx_sorted, decimate N off idx_sorted)))))"

text \<open>
  \<^verbatim>\<open>_assign_indices\<close> as the window calls it: the refusal without an active group is a
  warning dialog and leaves the window as it is. The log line and the repaint that
  follow a mutation are not part of the model.
\<close>

definition window_assign :: "nat list \<Rightarrow> string \<Rightarrow> MainWindow \<Rightarrow> error + MainWindow" where
  "window_assign indices mode w =
     (case assign_indices (active_group_id w) indices mode (state w) of
        Inl NoActiveGroup \<Rightarrow> Inr w
      | Inl err \<Rightarrow> Inl err
      | Inr s \<Rightarrow> Inr (w\<lparr>state := s\<rparr>))"

text \<open>
  The left click in mode \<^verbatim>\<open>hline\<close> or \<^verbatim>\<open>vline\<close> at the point \<open>(px, py)\<close>. \<open>R\<close> is the band
  half-width after lines 953-958 (the value of the radius spin box, or half the
  estimated point diameter when that value is not positive). With no hit the handler
  only logs and returns.
\<close>

definition on_mouse_clicked_line ::
  "string \<Rightarrow> real \<Rightarrow> real \<Rightarrow> real \<Rightarrow> MainWindow \<Rightarrow> error + MainWindow" where
  "on_mouse_clicked_line mode R px py w =
     (let N = max 1 (line_spacing w);
          off = line_offset w mod N;
          ds = data (state w)
      in case (if mode = ''hline'' then line_hits (d_y ds) (d_x ds) py R N off w
               else line_hits (d_x ds) (d_y ds) px R N off w) of
           Inl err \<Rightarrow> Inl err
         | Inr None \<Rightarrow> Inr w
         | Inr (Some (idx_sorted, hits)) \<Rightarrow>
             window_assign hits
               (if preserve_base_selection (state w) then ''add'' else ''toggle'')
               (w\<lparr>last_line_orientation := Some (if mode = ''hline'' then ''h'' else ''v''),
                  last_line_indices := Some hits\<rparr>))"

section \<open>Selection rule (MainWindow.on_rule_clicked, the anchors)\<close>

text \<open>
  Lines 1368-1369: the values that the rule dialog presets for "keep 1 of N" and
  "offset" along the line, taken from the two spin boxes of the line tool and kept
  within the ranges of the dialog's own boxes.
\<close>

definition rule_dialog_defaults :: "MainWindow \<Rightarrow> int \<times> int" where
  "rule_dialog_defaults w =
     (min 9999 (max 1 (max 1 (line_spacing w))),
      min 9998 (max 0 (line_offset w mod max 1 (line_spacing w))))"

text \<open>
  Lines 1357-1401, for the accepted dialog values \<open>N\<close> and \<open>Off\<close>: without a stored line
  selection the handler warns and returns (\<open>None\<close>); else it sorts the stored selection
  along the line and keeps the entries at the positions \<open>p\<close> with
  \<open>p mod max(1, N) = Off mod max(1, N)\<close> as the anchors of the propagation.
\<close>

definition rule_anchors :: "int \<Rightarrow> int \<Rightarrow> MainWindow \<Rightarrow> error + nat list option" where
  "rule_anchors N Off w =
     (case last_line_indices w of
        None \<Rightarrow> Inr None
      | Some line_idx \<Rightarrow>
          if last_line_orientation w \<noteq> Some ''h'' \<and> last_line_orientation w \<noteq> Some ''v''
          then Inr None
          else
            (case np_take (if last_line_orientation w = Some ''h''
                           then d_x (data (state w)) else d_y (data (state w))) line_idx of
               Inl err \<Rightarrow> Inl err
             | Inr keys \<Rightarrow>
                 (let line_idx_sorted = map (\<lambda>j. line_idx ! j) (np_argsort keys)
                  in Inr (Some (decimate (max 1 N) (Off mod max 1 N) line_idx_sorted)))))"


section \<open>Atoms block of the data file (src/dbi/core/lammps_parser.py)\<close>

text \<open>
  Strings are byte strings here; \<^verbatim>\<open>strip\<close>, \<^verbatim>\<open>split\<close> and \<^verbatim>\<open>lower\<close> are modelled on ASCII
  (tab, line feed, vertical tab, form feed, carriage return, the separators 28-31 and
  the space are Python's ASCII whitespace).
\<close>

definition HEADER_KEYS :: "string list" where
  "HEADER_KEYS =
     [''atoms'', ''bonds'', ''angles'', ''dihedrals'', ''impropers'',
      ''velocities'', ''masses'',
      ''pair coeffs'', ''bond coeffs'', ''angle coeffs'', ''dihedral coeffs'',
      ''improper coeffs'',
      ''ellipsoids'', ''lines'', ''triangles'',
      ''atom types'', ''bond types'', ''angle types'', ''dihedral types'',
      ''improper types'',
      ''groups'', ''fixes'']"

definition is_space :: "char \<Rightarrow> bool" where
  "is_space c =
     (c \<in> set [CHR 0x09, CHR 0x0A, CHR 0x0B, CHR 0x0C, CHR 0x0D,
                CHR 0x1C, CHR 0x1D, CHR 0x1E, CHR 0x1F, CHR '' ''])"

definition strip :: "string \<Rightarrow> string" where
  "strip s = rev (dropWhile is_space (rev (dropWhile is_space s)))"

text \<open>\<^verbatim>\<open>s.split("#", 1)[0]\<close>: the text before the first comment marker.\<close>

definition before_hash :: "string \<Rightarrow> string" where
  "before_hash s = takeWhile (\<lambda>c. c \<noteq> CHR ''#'') s"

definition lower_char :: "char \<Rightarrow> char" where
  "lower_char c =
     (case map_of (zip ''ABCDEFGHIJKLMNOPQRSTUVWXYZ'' ''abcdefghijklmnopqrstuvwxyz'') c of
        None \<Rightarrow> c
      | Some l \<Rightarrow> l)"

definition lower :: "string \<Rightarrow> string" where
  "lower s = map lower_char s"

text \<open>\<^verbatim>\<open>s.split()\<close>: the maximal runs of non-whitespace; \<open>w\<close> is the run being read.\<close>

fun split_acc :: "string \<Rightarrow> string \<Rightarrow> string list" where
  "split_acc [] w = (if w = [] then [] else [w])"
| "split_acc (c # cs) w =
     (if is_space c then (if w = [] then split_acc cs [] else w # split_acc cs [])
      else split_acc cs (w @ [c]))"

definition split_ws :: "string \<Rightarrow> string list" where
  "split_ws s = split_acc s []"

text \<open>
  \<^verbatim>\<open>_find_section\<close>: the index of the first line whose comment-stripped, stripped,
  lower-cased text starts with the lower-cased key.
\<close>

fun find_section_from :: "nat \<Rightarrow> string list \<Rightarrow> string \<Rightarrow> nat option" where
  "find_section_from i [] key = None"
| "find_section_from i (raw # rest) key =
     (if prefix (lower key) (lower (strip (before_hash raw))) then Some i
      else find_section_from (Suc i) rest key)"

definition find_section :: "string list \<Rightarrow> string \<Rightarrow> nat option" where
  "find_section lines key = find_section_from 0 lines key"

text \<open>
  Lines 51-56 of \<^verbatim>\<open>_iter_atoms_block\<close>: the first word \<^verbatim>\<open>fw\<close> of a line and the test that
  ends the block.
\<close>

definition first_word :: "string \<Rightarrow> string" where
  "first_word s =
     (let bare = lower (strip (before_hash s))
      in if bare = [] then []
         else (case split_ws bare of [] \<Rightarrow> [] | w # ws \<Rightarrow> w))"

definition ends_block :: "string \<Rightarrow> bool" where
  "ends_block line =
     (let s = strip line
      in s \<noteq> [] \<and> first_word s \<in> set HEADER_KEYS \<and> first_word s \<noteq> ''atoms'')"

text \<open>
  \<^verbatim>\<open>_iter_atoms_block\<close>: from the line after the header, skip the blank lines, then
  collect every line up to the first line that ends the block.
\<close>

definition iter_atoms_block :: "string list \<Rightarrow> nat \<Rightarrow> string list" where
  "iter_atoms_block lines start_idx =
     takeWhile (\<lambda>line. \<not> ends_block line)
       (dropWhile (\<lambda>line. strip line = []) (drop (start_idx + 1) lines))"

section \<open>Project documents (src/dbi/core/project_io.py)\<close>

text \<open>
  \<^verbatim>\<open>save_project\<close> builds a dictionary and writes it with \<^verbatim>\<open>json.dumps\<close>;
  \<^verbatim>\<open>load_project\<close> reads it back with \<^verbatim>\<open>json.loads\<close>. The document is modelled as the JSON
  value itself: the text layer belongs to the library, which returns the value it was
  given for integers, finite floats, booleans, strings, lists and string-keyed objects.
  An object is the list of its members in order; keys of a parsed object are distinct.
\<close>

datatype json =
  JNull | JBool bool | JInt int | JFloat real | JStr string
  | JList "json list" | JObj "(string \<times> json) list"

definition ebind :: "error + 'a \<Rightarrow> ('a \<Rightarrow> error + 'b) \<Rightarrow> error + 'b" where
  "ebind m f = (case m of Inl err \<Rightarrow> Inl err | Inr v \<Rightarrow> f v)"

fun map_err :: "('a \<Rightarrow> error + 'b) \<Rightarrow> 'a list \<Rightarrow> error + 'b list" where
  "map_err f [] = Inr []"
| "map_err f (v # vs) =
     (case f v of
        Inl err \<Rightarrow> Inl err
      | Inr r \<Rightarrow> (case map_err f vs of Inl err \<Rightarrow> Inl err | Inr rs \<Rightarrow> Inr (r # rs)))"

text \<open>\<^verbatim>\<open>d[key]\<close>: KeyError for a missing key, TypeError when \<open>d\<close> is no object.\<close>

definition jget :: "json \<Rightarrow> string \<Rightarrow> error + json" where
  "jget d k =
     (case d of
        JObj kvs \<Rightarrow> (case map_of kvs k of None \<Rightarrow> Inl KeyError | Some v \<Rightarrow> Inr v)
      | _ \<Rightarrow> Inl TypeError)"

text \<open>\<^verbatim>\<open>d.get(key, default)\<close>.\<close>

definition jget_default :: "json \<Rightarrow> string \<Rightarrow> json \<Rightarrow> error + json" where
  "jget_default d k dflt =
     (case d of
        JObj kvs \<Rightarrow> (case map_of kvs k of None \<Rightarrow> Inr dflt | Some v \<Rightarrow> Inr v)
      | _ \<Rightarrow> Inl TypeError)"

text \<open>
  The conversions \<^verbatim>\<open>float(v)\<close>, \<^verbatim>\<open>int(v)\<close> and \<^verbatim>\<open>bool(v)\<close> on a JSON value. The records
  hold numbers only, so a value that Python would store unconverted (a string as a box
  bound) or would parse (\<^verbatim>\<open>float("1.5")\<close>) is an error here; \<^verbatim>\<open>save_project\<close> writes no
  such value.
\<close>

definition as_float :: "json \<Rightarrow> error + real" where
  "as_float v =
     (case v of
        JFloat r \<Rightarrow> Inr r
      | JInt i \<Rightarrow> Inr (of_int i)
      | JBool b \<Rightarrow> Inr (if b then 1 else 0)
      | JStr s \<Rightarrow> Inl ValueError
      | _ \<Rightarrow> Inl TypeError)"

definition as_int :: "json \<Rightarrow> error + int" where
  "as_int v =
     (case v of
        JInt i \<Rightarrow> Inr i
      | JFloat r \<Rightarrow> Inr (if 0 \<le> r then \<lfloor>r\<rfloor> else \<lceil>r\<rceil>)
      | JBool b \<Rightarrow> Inr (if b then 1 else 0)
      | JStr s \<Rightarrow> Inl ValueError
      | _ \<Rightarrow> Inl TypeError)"

definition as_str :: "json \<Rightarrow> error + string" where
  "as_str v = (case v of JStr s \<Rightarrow> Inr s | _ \<Rightarrow> Inl TypeError)"

definition truthy :: "json \<Rightarrow> bool" where
  "truthy v =
     (case v of
        JNull \<Rightarrow> False
      | JBool b \<Rightarrow> b
      | JInt i \<Rightarrow> i \<noteq> 0
      | JFloat r \<Rightarrow> r \<noteq> 0
      | JStr s \<Rightarrow> s \<noteq> []
      | JList vs \<Rightarrow> vs \<noteq> []
      | JObj kvs \<Rightarrow> kvs \<noteq> [])"

text \<open>
  \<^verbatim>\<open>np.asarray(v, dtype=float)\<close> and \<^verbatim>\<open>np.asarray(v, dtype=int)\<close> / \<^verbatim>\<open>dtype=np.int32\<close> of a
  list: an integer outside the \<open>bits\<close>-bit range raises OverflowError.
\<close>

definition np_asarray_float :: "json \<Rightarrow> error + real list" where
  "np_asarray_float v = (case v of JList vs \<Rightarrow> map_err as_float vs | _ \<Rightarrow> Inl TypeError)"

definition np_asarray_int :: "nat \<Rightarrow> json \<Rightarrow> error + int list" where
  "np_asarray_int bits v =
     (case v of
        JList vs \<Rightarrow>
          map_err (\<lambda>e. ebind (as_int e)
                      (\<lambda>i. if int_fits bits i then Inr i else Inl OverflowError)) vs
      | _ \<Rightarrow> Inl TypeError)"

text \<open>\<^verbatim>\<open>tuple(g["color"])\<close> and \<^verbatim>\<open>tuple(float(x) for x in g["direction"])\<close>.\<close>

definition int_tuple :: "json \<Rightarrow> error + int list" where
  "int_tuple v =
     (case v of
        JList vs \<Rightarrow> map_err (\<lambda>e. case e of JInt i \<Rightarrow> Inr i | _ \<Rightarrow> Inl TypeError) vs
      | _ \<Rightarrow> Inl TypeError)"

definition float_tuple :: "json \<Rightarrow> error + real list" where
  "float_tuple v = (case v of JList vs \<Rightarrow> map_err as_float vs | _ \<Rightarrow> Inl TypeError)"

subsection \<open>save_project\<close>

definition save_box :: "Box \<Rightarrow> json" where
  "save_box b =
     JObj [(''xlo'', JFloat (xlo b)), (''xhi'', JFloat (xhi b)),
           (''ylo'', JFloat (ylo b)), (''yhi'', JFloat (yhi b)),
           (''zlo'', JFloat (zlo b)), (''zhi'', JFloat (zhi b))]"

definition save_data :: "DataSet \<Rightarrow> json" where
  "save_data ds =
     JObj [(''ids'', JList (map JInt (d_ids ds))),
           (''x'', JList (map JFloat (d_x ds))),
           (''y'', JList (map JFloat (d_y ds))),
           (''z'', JList (map JFloat (d_z ds))),
           (''box'', save_box (d_box ds))]"

definition save_group :: "Group \<Rightarrow> json" where
  "save_group g =
     JObj [(''gid'', JInt (g_gid g)), (''name'', JStr (g_name g)),
           (''color'', JList (map JInt (g_color g))),
           (''direction'', JList (map JFloat (g_direction g)))]"

definition save_breather :: "BreatherParams \<Rightarrow> json" where
  "save_breather b =
     JObj [(''A'', JFloat (br_A b)), (''beta'', JFloat (br_beta b)),
           (''x0'', JFloat (br_x0 b)), (''y0'', JFloat (br_y0 b))]"

text \<open>The document of \<^verbatim>\<open>save_project(state, path, ui_state)\<close>; the groups in table order.\<close>

definition save_project :: "ProjectState \<Rightarrow> json \<Rightarrow> json" where
  "save_project s ui_state =
     JObj [(''data'', save_data (data s)),
           (''assignment'', JList (map JInt (assignment s))),
           (''groups'', JList (map (\<lambda>kg. save_group (snd kg)) (groups s))),
           (''breather'', save_breather (breather s)),
           (''apply_localizing'', JBool (apply_localizing s)),
           (''preserve_base_selection'', JBool (preserve_base_selection s)),
           (''ui'', ui_state)]"

subsection \<open>load_project\<close>

text \<open>
  \<^verbatim>\<open>Box(**d["data"]["box"])\<close>: the keys have to be exactly the six field names (else
  TypeError: a missing argument or an unexpected keyword).
\<close>

definition load_box :: "json \<Rightarrow> error + Box" where
  "load_box v =
     (case v of
        JObj kvs \<Rightarrow>
          if set (map fst kvs) \<noteq> set [''xlo'', ''xhi'', ''ylo'', ''yhi'', ''zlo'', ''zhi'']
          then Inl TypeError
          else
            ebind (ebind (jget v ''xlo'') as_float) (\<lambda>a.
            ebind (ebind (jget v ''xhi'') as_float) (\<lambda>b.
            ebind (ebind (jget v ''ylo'') as_float) (\<lambda>c.
            ebind (ebind (jget v ''yhi'') as_float) (\<lambda>d.
            ebind (ebind (jget v ''zlo'') as_float) (\<lambda>e.
            ebind (ebind (jget v ''zhi'') as_float) (\<lambda>f.
              Inr \<lparr>xlo = a, xhi = b, ylo = c, yhi = d, zlo = e, zhi = f\<rparr>))))))
      | _ \<Rightarrow> Inl TypeError)"

definition load_data :: "json \<Rightarrow> error + DataSet" where
  "load_data dat =
     ebind (ebind (jget dat ''box'') load_box) (\<lambda>bx.
     ebind (ebind (jget dat ''ids'') (np_asarray_int 64)) (\<lambda>is.
     ebind (ebind (jget dat ''x'') np_asarray_float) (\<lambda>xs.
     ebind (ebind (jget dat ''y'') np_asarray_float) (\<lambda>ys.
     ebind (ebind (jget dat ''z'') np_asarray_float) (\<lambda>zs.
       Inr \<lparr>d_ids = is, d_x = xs, d_y = ys, d_z = zs, d_box = bx\<rparr>)))))"

text \<open>
  \<^verbatim>\<open>ProjectState(data=ds)\<close>: the defaults of the dataclass, and \<^verbatim>\<open>__post_init__\<close> sizes the
  labels to the ids.
\<close>

definition new_state :: "DataSet \<Rightarrow> ProjectState" where
  "new_state ds =
     \<lparr>data = ds, assignment = replicate (length (d_ids ds)) 0, groups = [],
      undo_stack = [], redo_stack = [], max_history = 100,
      breather = \<lparr>br_A = 0.05, br_beta = 1, br_x0 = 0, br_y0 = 0\<rparr>,
      apply_localizing = True, preserve_base_selection = True\<rparr>"

text \<open>
  The loop over \<^verbatim>\<open>d["groups"]\<close>: the id is read first; the second statement is an
  assignment, so its right-hand side (the direction) is evaluated before the call on
  its left; then \<^verbatim>\<open>add_group\<close> puts the new group into the table, and the assignment
  to \<^verbatim>\<open>.direction\<close> changes that same object, the entry the table holds under the id
  (\<open>AList.map_entry\<close> changes an entry that is there and adds none).
\<close>

fun load_groups :: "json list \<Rightarrow> ProjectState \<Rightarrow> error + ProjectState" where
  "load_groups [] st = Inr st"
| "load_groups (g # gs) st =
     ebind (ebind (jget g ''gid'') as_int) (\<lambda>gid.
     ebind (ebind (jget g ''direction'') float_tuple) (\<lambda>dir.
     ebind (ebind (jget g ''name'') as_str) (\<lambda>nm.
     ebind (ebind (jget g ''color'') int_tuple) (\<lambda>col.
       (case add_group gid nm col st of
          (grp, st1) \<Rightarrow>
            load_groups gs
              (st1\<lparr>groups :=
                   AList.map_entry gid (\<lambda>obj. obj\<lparr>g_direction := dir\<rparr>) (groups st1)\<rparr>))))))"

definition load_breather :: "json \<Rightarrow> error + BreatherParams" where
  "load_breather b =
     ebind (ebind (jget b ''A'') as_float) (\<lambda>a.
     ebind (ebind (jget b ''beta'') as_float) (\<lambda>bt.
     ebind (ebind (jget b ''x0'') as_float) (\<lambda>x.
     ebind (ebind (jget b ''y0'') as_float) (\<lambda>y.
       Inr \<lparr>br_A = a, br_beta = bt, br_x0 = x, br_y0 = y\<rparr>))))"

definition load_project :: "json \<Rightarrow> error + (ProjectState \<times> json)" where
  "load_project d =
     ebind (ebind (jget d ''data'') load_data) (\<lambda>ds.
     ebind (ebind (jget d ''assignment'') (np_asarray_int 32)) (\<lambda>asg.
     ebind (jget d ''groups'') (\<lambda>gl.
     ebind (case gl of
              JList gs \<Rightarrow> load_groups gs ((new_state ds)\<lparr>assignment := asg, groups := []\<rparr>)
            | _ \<Rightarrow> Inl TypeError) (\<lambda>st.
     ebind (ebind (jget d ''breather'') load_breather) (\<lambda>br.
     ebind (jget_default d ''apply_localizing'' (JBool True)) (\<lambda>al.
     ebind (jget_default d ''preserve_base_selection'' (JBool True)) (\<lambda>pb.
     ebind (jget_default d ''ui'' (JObj [])) (\<lambda>ui.
       Inr (st\<lparr>breather := br, apply_localizing := truthy al,
                preserve_base_selection := truthy pb\<rparr>, ui)))))))))"

section \<open>Centre expressions (MainWindow.on_pick_center_dialog._eval_expr)\<close>


datatype boolop = And | Or



text \<open>
  An evaluation returns a value, raises an exception of class \<^verbatim>\<open>Exception\<close> (the handler
  treats all of them alike), or is \<open>Unknown\<close>: it leaves what the model follows, and
  nothing is said about it from there on.
\<close>

datatype 'a res = Val 'a | Raises | Unknown

text \<open>Two parts evaluated one after the other, then combined.\<close>

definition both :: "'a res \<Rightarrow> 'b res \<Rightarrow> ('a \<Rightarrow> 'b \<Rightarrow> 'c res) \<Rightarrow> 'c res" where
  "both ra rb f =
     (case ra of
        Raises \<Rightarrow> Raises
      | Unknown \<Rightarrow> Unknown
      | Val a \<Rightarrow> (case rb of Raises \<Rightarrow> Raises | Unknown \<Rightarrow> Unknown | Val b \<Rightarrow> f a b))"





















section \<open>Vocabulary of the properties\<close>

subsection \<open>Edit history\<close>

text \<open>
  An edit fits an array of \<open>n\<close> labels when its indices are distinct and in range and
  both snapshots have one value per index (what \<^verbatim>\<open>_assign_indices\<close> produces, the
  indices coming from \<^verbatim>\<open>np.unique\<close>).
\<close>

definition wf_edit :: "nat \<Rightarrow> Edit \<Rightarrow> bool" where
  "wf_edit n e =
     (distinct (e_indices e) \<and> list_all (\<lambda>i. i < n) (e_indices e)
      \<and> length (e_before e) = length (e_indices e)
      \<and> length (e_after e) = length (e_indices e))"

text \<open>
  The undo stack, read from its top, is consistent with the labels \<open>a\<close>: what the top
  edit's \<open>after\<close> snapshot stores is what \<open>a\<close> holds at its indices, and the rest is
  consistent with the labels that undoing it gives. Dually for the redo stack. The
  labels are compared as \<^verbatim>\<open>int32\<close> values.
\<close>

fun undo_chain :: "int list \<Rightarrow> Edit list \<Rightarrow> bool" where
  "undo_chain a [] = True"
| "undo_chain a (e # es) =
     (wf_edit (length a) e \<and> map (\<lambda>i. a ! i) (e_indices e) = map to_int32 (e_after e)
      \<and> undo_chain (put_all a (e_indices e) (map to_int32 (e_before e))) es)"

fun redo_chain :: "int list \<Rightarrow> Edit list \<Rightarrow> bool" where
  "redo_chain a [] = True"
| "redo_chain a (e # es) =
     (wf_edit (length a) e \<and> map (\<lambda>i. a ! i) (e_indices e) = map to_int32 (e_before e)
      \<and> redo_chain (put_all a (e_indices e) (map to_int32 (e_after e))) es)"

text \<open>The labels at the indices of every edit of a stack are \<^verbatim>\<open>int32\<close> values.\<close>

definition touched_fit :: "int list \<Rightarrow> Edit list \<Rightarrow> bool" where
  "touched_fit a es = list_all (\<lambda>e. list_all (\<lambda>i. int_fits 32 (a ! i)) (e_indices e)) es"

definition history_inv :: "ProjectState \<Rightarrow> bool" where
  "history_inv s =
     (undo_chain (map to_int32 (assignment s)) (rev (undo_stack s))
      \<and> redo_chain (map to_int32 (assignment s)) (rev (redo_stack s))
      \<and> touched_fit (assignment s) (undo_stack s)
      \<and> touched_fit (assignment s) (redo_stack s))"

text \<open>
  The states reached from a state with an empty history (a new \<^verbatim>\<open>ProjectState\<close>, or
  one returned by \<^verbatim>\<open>load_project\<close>) by assignment mutations, undo and redo.
\<close>

inductive edit_reachable :: "ProjectState \<Rightarrow> bool" where
  fresh: "undo_stack s = [] \<Longrightarrow> redo_stack s = [] \<Longrightarrow> edit_reachable s"
| assign: "edit_reachable s \<Longrightarrow> assign_indices gid indices mode s = Inr s' \<Longrightarrow> edit_reachable s'"
| undo: "edit_reachable s \<Longrightarrow> undo s = Inr (r, s') \<Longrightarrow> edit_reachable s'"
| redo: "edit_reachable s \<Longrightarrow> redo s = Inr (r, s') \<Longrightarrow> edit_reachable s'"

text \<open>The same with the group operations of \<^verbatim>\<open>ProjectState\<close> as further steps.\<close>

inductive reachable :: "ProjectState \<Rightarrow> bool" where
  fresh: "undo_stack s = [] \<Longrightarrow> redo_stack s = [] \<Longrightarrow> reachable s"
| assign: "reachable s \<Longrightarrow> assign_indices gid indices mode s = Inr s' \<Longrightarrow> reachable s'"
| undo: "reachable s \<Longrightarrow> undo s = Inr (r, s') \<Longrightarrow> reachable s'"
| redo: "reachable s \<Longrightarrow> redo s = Inr (r, s') \<Longrightarrow> reachable s'"
| add_group: "reachable s \<Longrightarrow> add_group gid nm col s = (g, s') \<Longrightarrow> reachable s'"
| remove_group: "reachable s \<Longrightarrow> reachable (remove_group gid s)"
| clear_groups: "reachable s \<Longrightarrow> reachable (clear_groups s)"

subsection \<open>Assignment modes\<close>

text \<open>The label a mode writes over an old label \<open>c\<close>, per entry of \<^verbatim>\<open>np.where\<close>.\<close>

definition label_after :: "string \<Rightarrow> int \<Rightarrow> int \<Rightarrow> int" where
  "label_after mode gid c =
     (if mode = ''remove'' then 0
      else if mode = ''toggle'' then (if c = gid then 0 else gid)
      else (if c = gid then c else gid))"

definition known_mode :: "string \<Rightarrow> bool" where
  "known_mode mode = (mode = ''add'' \<or> mode = ''remove'' \<or> mode = ''toggle'')"

subsection \<open>Colours\<close>

text \<open>An RGBA colour: four channels, each a byte.\<close>

definition rgba_ok :: "int list \<Rightarrow> bool" where
  "rgba_ok c = (length c = 4 \<and> list_all (\<lambda>v. 0 \<le> v \<and> v \<le> 255) c)"

subsection \<open>Line selection\<close>

text \<open>The point of index \<open>i\<close> passes the circular mask of the window (if one is active).\<close>

definition in_mask :: "MainWindow \<Rightarrow> nat \<Rightarrow> bool" where
  "in_mask w i =
     (case circle_center w of
        None \<Rightarrow> True
      | Some (x0, y0) \<Rightarrow>
          circle_enabled w \<and> circle_radius w > 0 \<longrightarrow>
            (d_x (data (state w)) ! i - x0) * (d_x (data (state w)) ! i - x0)
              + (d_y (data (state w)) ! i - y0) * (d_y (data (state w)) ! i - y0)
            \<le> circle_radius w * circle_radius w)"


text \<open>
  The band hits of a line at \<open>c\<close> with half-width \<open>R\<close> that pass the mask, in index
  order: what the sort along the line receives.
\<close>

definition band_hits :: "real list \<Rightarrow> real \<Rightarrow> real \<Rightarrow> MainWindow \<Rightarrow> nat list" where
  "band_hits across c R w =
     filter (\<lambda>i. \<bar>across ! i - c\<bar> \<le> R \<and> in_mask w i) [0..<length across]"


text \<open>The coordinates across and along the line of a mode, and the line's coordinate.\<close>

definition line_across :: "string \<Rightarrow> MainWindow \<Rightarrow> real list" where
  "line_across mode w =
     (if mode = ''hline'' then d_y (data (state w)) else d_x (data (state w)))"

definition line_along :: "string \<Rightarrow> MainWindow \<Rightarrow> real list" where
  "line_along mode w =
     (if mode = ''hline'' then d_x (data (state w)) else d_y (data (state w)))"

definition line_coord :: "string \<Rightarrow> real \<Rightarrow> real \<Rightarrow> real" where
  "line_coord mode px py = (if mode = ''hline'' then py else px)"

subsection \<open>Project documents\<close>

text \<open>
  A valid state, as far as the document is concerned: the ids fit \<^verbatim>\<open>int64\<close> and the
  labels \<^verbatim>\<open>int32\<close> (the dtypes of the arrays), and the group table is a dictionary whose
  keys are the ids of its groups (what \<^verbatim>\<open>add_group\<close> maintains).
\<close>

definition valid_state :: "ProjectState \<Rightarrow> bool" where
  "valid_state s =
     (list_all (int_fits 64) (d_ids (data s))
      \<and> list_all (int_fits 32) (assignment s)
      \<and> distinct (map fst (groups s))
      \<and> list_all (\<lambda>kg. g_gid (snd kg) = fst kg) (groups s))"

subsection \<open>Centre expressions\<close>





section \<open>Example states\<close>

text \<open>
  Four atoms on a line, two groups, labels \<open>[0, 1, 2, 0]\<close>; toggling atoms 0 and 1 with
  group 1 active; the same with a history of depth 1.
\<close>

definition demo_data :: DataSet where
  "demo_data =
     \<lparr>d_ids = [1, 2, 3, 4], d_x = [0, 1, 2, 3], d_y = [0, 0, 0, 0], d_z = [0, 0, 0, 0],
      d_box = \<lparr>xlo = 0, xhi = 4, ylo = - 1, yhi = 1, zlo = 0, zhi = 0\<rparr>\<rparr>"

definition demo_state :: ProjectState where
  "demo_state =
     \<lparr>data = demo_data, assignment = [0, 1, 2, 0],
      groups = [(1, \<lparr>g_gid = 1, g_name = ''Group 1'', g_color = [230, 25, 75, 255],
                     g_direction = [1, 0, 0]\<rparr>),
                (2, \<lparr>g_gid = 2, g_name = ''Group 2'', g_color = [60, 180, 75, 255],
                     g_direction = [0, 1, 0]\<rparr>)],
      undo_stack = [], redo_stack = [], max_history = 100,
      breather = \<lparr>br_A = 0.05, br_beta = 1, br_x0 = 2, br_y0 = 0\<rparr>,
      apply_localizing = True, preserve_base_selection = False\<rparr>"

definition demo_edit :: Edit where
  "demo_edit =
     \<lparr>e_indices = [0, 1], e_before = [0, 1], e_after = [1, 0],
      e_description = ''toggle 2 to group 1''\<rparr>"

definition demo_toggled :: ProjectState where
  "demo_toggled = demo_state\<lparr>assignment := [1, 0, 2, 0], undo_stack := [demo_edit]\<rparr>"

definition demo_undone :: ProjectState where
  "demo_undone = demo_state\<lparr>redo_stack := [demo_edit]\<rparr>"

definition demo_small :: ProjectState where
  "demo_small = demo_state\<lparr>max_history := 1\<rparr>"

definition demo_small_toggled :: ProjectState where
  "demo_small_toggled = demo_small\<lparr>assignment := [1, 0, 2, 0], undo_stack := [demo_edit]\<rparr>"

definition demo_edit2 :: Edit where
  "demo_edit2 =
     \<lparr>e_indices = [3], e_before = [0], e_after = [0], e_description = ''remove 1''\<rparr>"

definition demo_small_removed :: ProjectState where
  "demo_small_removed = demo_small_toggled\<lparr>undo_stack := [demo_edit2]\<rparr>"

definition demo_dangling :: ProjectState where
  "demo_dangling = demo_state\<lparr>assignment := [0, 1, 7, 2]\<rparr>"

text \<open>
  Ten atoms on the line \<open>y = 0\<close> at \<open>x = 0, ..., 9\<close>, one group, keep 1 of 3 with offset
  1; the same window with a circular mask of radius 2.5 around \<open>(5, 0)\<close>.
\<close>

definition line_data :: DataSet where
  "line_data =
     \<lparr>d_ids = [1, 2, 3, 4, 5, 6, 7, 8, 9, 10],
      d_x = [0, 1, 2, 3, 4, 5, 6, 7, 8, 9],
      d_y = [0, 0, 0, 0, 0, 0, 0, 0, 0, 0],
      d_z = [0, 0, 0, 0, 0, 0, 0, 0, 0, 0],
      d_box = \<lparr>xlo = 0, xhi = 10, ylo = - 1, yhi = 1, zlo = 0, zhi = 0\<rparr>\<rparr>"

definition line_window :: MainWindow where
  "line_window =
     \<lparr>state = demo_state\<lparr>data := line_data, assignment := [0, 0, 0, 0, 0, 0, 0, 0, 0, 0]\<rparr>,
      active_group_id = 1, circle_enabled = False, circle_center = None, circle_radius = 0,
      line_spacing = 3, line_offset = 1,
      last_line_orientation = None, last_line_indices = None\<rparr>"

text \<open>The window after a click on the line \<open>y = 0\<close> in mode \<^verbatim>\<open>hline\<close>.\<close>

definition line_clicked :: MainWindow where
  "line_clicked =
     line_window\<lparr>last_line_orientation := Some ''h'', last_line_indices := Some [1, 4, 7],
       state := (state line_window)\<lparr>assignment := [0, 1, 0, 0, 1, 0, 0, 1, 0, 0],
          undo_stack := [\<lparr>e_indices = [1, 4, 7], e_before = [0, 0, 0], e_after = [1, 1, 1],
                           e_description = ''toggle 3 to group 1''\<rparr>]\<rparr>\<rparr>"

definition masked_window :: MainWindow where
  "masked_window =
     line_window\<lparr>circle_enabled := True, circle_center := Some (5, 0), circle_radius := 5 / 2\<rparr>"

text \<open>
  A data file whose Atoms section is followed by a Pair Coeffs section and then by a
  Velocities section.
\<close>

definition coeffs_file :: "string list" where
  "coeffs_file =
     [''Atoms # atomic'', '''', ''1 1 0.0 0.0 0.0'', ''2 1 1.0 0.0 0.0'', '''',
      ''Pair Coeffs'', '''', ''1 1 0.5 1.0 2.5'', '''',
      ''Velocities'', '''', ''1 0.0 0.0 0.0'']"







section \<open>Proofs: labels and history\<close>

declare str_nat.simps [simp del]

subsection \<open>Indexed reads and writes\<close>

lemma length_put_all: "length (put_all a idx vs) = length a"
  by (induction a idx vs rule: put_all.induct) simp_all

lemma put_all_outside: "i \<notin> set idx \<Longrightarrow> put_all a idx vs ! i = a ! i"
  by (induction a idx vs rule: put_all.induct) auto

lemma put_all_inside:
  "distinct idx \<Longrightarrow> length vs = length idx \<Longrightarrow> k < length idx \<Longrightarrow> idx ! k < length a
   \<Longrightarrow> put_all a idx vs ! (idx ! k) = vs ! k"
proof (induction a idx vs arbitrary: k rule: put_all.induct)
  case (3 a i idx v vs)
  show ?case
  proof (cases k)
    case 0
    with 3 show ?thesis by (simp add: put_all_outside)
  next
    case (Suc m)
    with 3 show ?thesis by simp
  qed
qed simp_all

lemma take_put_all:
  assumes "distinct idx" "length vs = length idx" "list_all (\<lambda>i. i < length a) idx"
  shows "map (\<lambda>i. put_all a idx vs ! i) idx = vs"
proof (rule nth_equalityI)
  show "length (map (\<lambda>i. put_all a idx vs ! i) idx) = length vs" using assms by simp
next
  fix k assume "k < length (map (\<lambda>i. put_all a idx vs ! i) idx)"
  then have k: "k < length idx" by simp
  then have "idx ! k < length a" using assms(3) by (simp add: list_all_length)
  then show "map (\<lambda>i. put_all a idx vs ! i) idx ! k = vs ! k"
    using k assms by (simp add: put_all_inside)
qed

lemma put_all_restore:
  assumes "distinct idx" "length vs = length idx" "list_all (\<lambda>i. i < length a) idx"
  shows "put_all (put_all a idx vs) idx (map (\<lambda>i. a ! i) idx) = a"
proof (rule nth_equalityI)
  show "length (put_all (put_all a idx vs) idx (map (\<lambda>i. a ! i) idx)) = length a"
    by (simp add: length_put_all)
next
  fix j assume "j < length (put_all (put_all a idx vs) idx (map (\<lambda>i. a ! i) idx))"
  show "put_all (put_all a idx vs) idx (map (\<lambda>i. a ! i) idx) ! j = a ! j"
  proof (cases "j \<in> set idx")
    case False
    then show ?thesis by (simp add: put_all_outside)
  next
    case True
    then obtain k where k: "k < length idx" "idx ! k = j" by (auto simp: in_set_conv_nth)
    from k(1) assms(3) have "idx ! k < length a" by (simp add: list_all_length)
    then have "idx ! k < length (put_all a idx vs)"
      by (simp add: length_put_all)
    then have "put_all (put_all a idx vs) idx (map (\<lambda>i. a ! i) idx) ! (idx ! k)
          = map (\<lambda>i. a ! i) idx ! k"
      using assms(1) k(1) by (intro put_all_inside) simp_all
    then show ?thesis using k by simp
  qed
qed

lemma put_all_map_nth:
  assumes d: "distinct idx" and r: "list_all (\<lambda>i. i < length a) idx" and i: "i < length a"
  shows "put_all a idx (map f idx) ! i = (if i \<in> set idx then f i else a ! i)"
proof (cases "i \<in> set idx")
  case False
  then show ?thesis by (simp add: put_all_outside)
next
  case True
  then obtain k where k: "k < length idx" "idx ! k = i" by (auto simp: in_set_conv_nth)
  from k(1) r have "idx ! k < length a" by (simp add: list_all_length)
  with d k(1) have "put_all a idx (map f idx) ! (idx ! k) = map f idx ! k"
    by (intro put_all_inside) simp_all
  with k True show ?thesis by simp
qed

lemma map_put_all: "map f (put_all a idx vs) = put_all (map f a) idx (map f vs)"
  by (induction a idx vs rule: put_all.induct) (simp_all add: map_update)

lemma to_int32_fits: "int_fits 32 (to_int32 i)"
  by (simp add: to_int32_def int_fits_def)

lemma to_int32_id: "int_fits 32 i \<Longrightarrow> to_int32 i = i"
  by (simp add: to_int32_def int_fits_def)

lemma to_int32_idem: "to_int32 (to_int32 i) = to_int32 i"
  using to_int32_fits by (rule to_int32_id)

lemma put_all_fits:
  "int_fits 32 (a ! i) \<Longrightarrow> list_all (int_fits 32) vs \<Longrightarrow> int_fits 32 (put_all a idx vs ! i)"
proof (induction a idx vs rule: put_all.induct)
  case (3 a j idx v vs)
  from "3.prems" have "int_fits 32 (a[j := v] ! i)"
    by (cases "i = j"; cases "j < length a") (simp_all add: not_less list_update_beyond)
  with 3 show ?case by simp
qed simp_all

lemma list_all_to_int32: "list_all (int_fits 32) (map to_int32 vs)"
  by (simp add: list_all_iff to_int32_fits)

lemma np_put_same_length:
  "length vs = length idx \<Longrightarrow> list_all (\<lambda>i. i < length a) idx
   \<Longrightarrow> np_put a idx vs = Inr (put_all a idx vs)"
  by (simp add: np_put_def broadcast_to_def)

lemma np_put_int32_same_length:
  "length vs = length idx \<Longrightarrow> list_all (\<lambda>i. i < length a) idx
   \<Longrightarrow> np_put_int32 a idx vs = Inr (put_all a idx (map to_int32 vs))"
  by (simp add: np_put_int32_def np_put_same_length)

lemma np_take_Inr:
  "np_take a idx = Inr cur \<Longrightarrow> list_all (\<lambda>i. i < length a) idx \<and> cur = map (\<lambda>i. a ! i) idx"
  by (auto simp: np_take_def split: if_splits)

lemma distinct_np_unique: "distinct (np_unique idx)"
  by (simp add: np_unique_def)

lemma set_np_unique: "set (np_unique idx) = set idx"
  by (simp add: np_unique_def)

subsection \<open>The assignment mutation, case by case\<close>

lemma assign_indices_cases:
  assumes a: "assign_indices gid indices mode s = Inr s'"
  shows "\<exists>cur. np_take (assignment s) (np_unique indices) = Inr cur
     \<and> ((mode \<noteq> ''remove'' \<and> mode \<noteq> ''toggle'' \<and> mode \<noteq> ''add'' \<and> s' = s)
        \<or> (mode = ''remove''
            \<and> commit_edit (np_unique indices) cur (map (\<lambda>_. 0) cur)
                 (''remove '' @ str_nat (length (np_unique indices))) s = Inr s')
        \<or> (mode = ''toggle'' \<and> gid \<noteq> 0 \<and> int_fits 64 gid
            \<and> commit_edit (np_unique indices) cur (map (\<lambda>c. if c = gid then 0 else gid) cur)
                 (''toggle '' @ str_nat (length (np_unique indices)) @ '' to group '' @ str_int gid) s
               = Inr s')
        \<or> (mode = ''add'' \<and> gid \<noteq> 0 \<and> int_fits 64 gid
            \<and> commit_edit (np_unique indices) cur (map (\<lambda>c. if c = gid then c else gid) cur)
                 (''add '' @ str_nat (length (np_unique indices)) @ '' to group '' @ str_int gid) s
               = Inr s'))"
proof (cases "np_take (assignment s) (np_unique indices)")
  case (Inl err)
  with a show ?thesis by (simp add: assign_indices_def Let_def)
next
  case (Inr cur)
  show ?thesis
  proof (cases "mode = ''remove''")
    case True
    with a Inr show ?thesis by (simp add: assign_indices_def Let_def)
  next
    case nr: False
    show ?thesis
    proof (cases "mode = ''toggle''")
      case True
      with a Inr show ?thesis by (simp add: assign_indices_def Let_def split: if_splits)
    next
      case nt: False
      show ?thesis
      proof (cases "mode = ''add''")
        case True
        with a Inr show ?thesis by (simp add: assign_indices_def Let_def split: if_splits)
      next
        case False
        with a Inr nr nt show ?thesis by (simp add: assign_indices_def Let_def)
      qed
    qed
  qed
qed

lemma assign_indices_commit:
  assumes r: "list_all (\<lambda>i. i < length (assignment s)) indices"
    and m: "known_mode mode" and g: "mode = ''remove'' \<or> (gid \<noteq> 0 \<and> int_fits 64 gid)"
  shows "\<exists>desc. assign_indices gid indices mode s =
           commit_edit (np_unique indices) (map (\<lambda>i. assignment s ! i) (np_unique indices))
             (map (\<lambda>i. label_after mode gid (assignment s ! i)) (np_unique indices)) desc s"
proof -
  from r have "list_all (\<lambda>i. i < length (assignment s)) (np_unique indices)"
    by (simp add: list_all_iff set_np_unique)
  then have t: "np_take (assignment s) (np_unique indices)
      = Inr (map (\<lambda>i. assignment s ! i) (np_unique indices))"
    by (simp add: np_take_def)
  from m consider "mode = ''remove''" | "mode = ''toggle''" | "mode = ''add''"
    by (auto simp: known_mode_def)
  then show ?thesis
  proof cases
    case 1
    with t show ?thesis
      by (auto simp: assign_indices_def Let_def label_after_def comp_def)
  next
    case 2
    with t g show ?thesis
      by (auto simp: assign_indices_def Let_def label_after_def comp_def)
  next
    case 3
    with t g show ?thesis
      by (auto simp: assign_indices_def Let_def label_after_def comp_def)
  qed
qed

lemma commit_edit_ok:
  assumes "list_all (\<lambda>i. i < length (assignment s)) idx" "length new = length idx"
  shows "commit_edit idx cur new desc s =
     Inr (s\<lparr>assignment := put_all (assignment s) idx (map to_int32 new),
            undo_stack :=
              (if int (length (undo_stack s)) + 1 > max_history s
               then tl (undo_stack s @ [\<lparr>e_indices = idx, e_before = cur, e_after = new,
                                         e_description = desc\<rparr>])
               else undo_stack s @ [\<lparr>e_indices = idx, e_before = cur, e_after = new,
                                      e_description = desc\<rparr>]),
            redo_stack := []\<rparr>)"
  using assms by (simp add: commit_edit_def np_put_int32_same_length Let_def)

lemma assign_indices_ok:
  assumes r: "list_all (\<lambda>i. i < length (assignment s)) indices"
    and m: "known_mode mode" and g: "mode = ''remove'' \<or> (gid \<noteq> 0 \<and> int_fits 64 gid)"
  shows "\<exists>e. e_indices e = np_unique indices \<and>
     assign_indices gid indices mode s =
       Inr (s\<lparr>assignment := put_all (assignment s) (np_unique indices)
                 (map (\<lambda>i. to_int32 (label_after mode gid (assignment s ! i))) (np_unique indices)),
              undo_stack := (if int (length (undo_stack s)) + 1 > max_history s
                             then tl (undo_stack s @ [e]) else undo_stack s @ [e]),
              redo_stack := []\<rparr>)"
proof -
  from r have r': "list_all (\<lambda>i. i < length (assignment s)) (np_unique indices)"
    by (simp add: list_all_iff set_np_unique)
  from assign_indices_commit [OF r m g] obtain desc where
    "assign_indices gid indices mode s =
           commit_edit (np_unique indices) (map (\<lambda>i. assignment s ! i) (np_unique indices))
             (map (\<lambda>i. label_after mode gid (assignment s ! i)) (np_unique indices)) desc s"
    by blast
  then show ?thesis
    using commit_edit_ok [OF r', of "map (\<lambda>i. label_after mode gid (assignment s ! i)) (np_unique indices)"]
    by (intro exI [of _ "\<lparr>e_indices = np_unique indices,
          e_before = map (\<lambda>i. assignment s ! i) (np_unique indices),
          e_after = map (\<lambda>i. label_after mode gid (assignment s ! i)) (np_unique indices),
          e_description = desc\<rparr>"]) (simp add: comp_def)
qed

lemma assign_indices_labels:
  assumes r: "list_all (\<lambda>i. i < length (assignment s)) indices"
    and m: "known_mode mode" and g: "mode = ''remove'' \<or> (gid \<noteq> 0 \<and> int_fits 64 gid)"
  shows "\<exists>s'. assign_indices gid indices mode s = Inr s'
     \<and> length (assignment s') = length (assignment s)
     \<and> (\<forall>i < length (assignment s).
           assignment s' ! i =
             (if i \<in> set indices then to_int32 (label_after mode gid (assignment s ! i))
              else assignment s ! i))"
proof -
  from r have r': "list_all (\<lambda>i. i < length (assignment s)) (np_unique indices)"
    by (simp add: list_all_iff set_np_unique)
  from assign_indices_ok [OF r m g] obtain s' where
    s': "assign_indices gid indices mode s = Inr s'"
    and a: "assignment s' = put_all (assignment s) (np_unique indices)
                 (map (\<lambda>i. to_int32 (label_after mode gid (assignment s ! i))) (np_unique indices))"
    by auto
  have "\<forall>i < length (assignment s).
           assignment s' ! i =
             (if i \<in> set indices then to_int32 (label_after mode gid (assignment s ! i))
              else assignment s ! i)"
    using put_all_map_nth [OF distinct_np_unique r'] a by (simp add: set_np_unique)
  with s' a show ?thesis by (simp add: length_put_all)
qed

lemma label_after_int32:
  "0 < gid \<Longrightarrow> gid < 2 ^ 31 \<Longrightarrow> to_int32 (label_after mode gid c) = label_after mode gid c"
  by (simp add: label_after_def to_int32_def)

lemma assign_indices_labels_small:
  assumes r: "list_all (\<lambda>i. i < length (assignment s)) indices"
    and m: "known_mode mode" and g: "0 < gid" "gid < 2 ^ 31"
  shows "\<exists>s'. assign_indices gid indices mode s = Inr s'
     \<and> length (assignment s') = length (assignment s)
     \<and> (\<forall>i < length (assignment s).
           assignment s' ! i =
             (if i \<in> set indices then label_after mode gid (assignment s ! i)
              else assignment s ! i))"
proof -
  from g have "mode = ''remove'' \<or> (gid \<noteq> 0 \<and> int_fits 64 gid)"
    by (simp add: int_fits_def)
  from assign_indices_labels [OF r m this] show ?thesis
    by (simp only: label_after_int32 [OF g])
qed

lemma commit_edit_stacks:
  assumes "commit_edit idx cur new desc s = Inr s'"
  shows "max_history s' = max_history s \<and> redo_stack s' = []
     \<and> (\<exists>e. e_indices e = idx
          \<and> undo_stack s' = (if int (length (undo_stack s)) + 1 > max_history s
                             then tl (undo_stack s @ [e]) else undo_stack s @ [e]))"
proof (cases "np_put_int32 (assignment s) idx new")
  case (Inl err)
  with assms show ?thesis by (simp add: commit_edit_def)
next
  case (Inr a)
  with assms have "s' = s\<lparr>assignment := a,
      undo_stack := (if int (length (undo_stack s)) + 1 > max_history s
         then tl (undo_stack s @ [\<lparr>e_indices = idx, e_before = cur, e_after = new,
                                    e_description = desc\<rparr>])
         else undo_stack s @ [\<lparr>e_indices = idx, e_before = cur, e_after = new,
                                e_description = desc\<rparr>]),
      redo_stack := []\<rparr>"
    by (cases "int (length (undo_stack s)) + 1 > max_history s")
      (auto simp: commit_edit_def Let_def)
  then have "max_history s' = max_history s" "redo_stack s' = []"
    "undo_stack s' = (if int (length (undo_stack s)) + 1 > max_history s
         then tl (undo_stack s @ [\<lparr>e_indices = idx, e_before = cur, e_after = new,
                                    e_description = desc\<rparr>])
         else undo_stack s @ [\<lparr>e_indices = idx, e_before = cur, e_after = new,
                                e_description = desc\<rparr>])"
    by simp_all
  then show ?thesis
    by (intro conjI exI [of _ "\<lparr>e_indices = idx, e_before = cur, e_after = new,
                                e_description = desc\<rparr>"]) simp_all
qed

lemma assign_indices_stacks:
  assumes "assign_indices gid indices mode s = Inr s'" "known_mode mode"
  shows "max_history s' = max_history s \<and> redo_stack s' = []
     \<and> (\<exists>e. e_indices e = np_unique indices
          \<and> undo_stack s' = (if int (length (undo_stack s)) + 1 > max_history s
                             then tl (undo_stack s @ [e]) else undo_stack s @ [e]))"
  using assign_indices_cases [OF assms(1)] assms(2)
  by (auto simp: known_mode_def dest!: commit_edit_stacks)

lemma assign_indices_unknown:
  assumes "assign_indices gid indices mode s = Inr s'" "\<not> known_mode mode"
  shows "s' = s"
  using assign_indices_cases [OF assms(1)] assms(2)
  by (auto simp: known_mode_def)

subsection \<open>The history stays consistent with the labels\<close>

lemma undo_chain_prefix: "undo_chain a (xs @ ys) \<Longrightarrow> undo_chain a xs"
  by (induction xs arbitrary: a) auto

lemma undo_chain_tl: "undo_chain a (rev u) \<Longrightarrow> undo_chain a (rev (tl u))"
proof (cases u)
  case Nil
  then show ?thesis by simp
next
  case (Cons x xs)
  assume "undo_chain a (rev u)"
  with Cons have "undo_chain a (rev xs @ [x])" by simp
  then have "undo_chain a (rev xs)" by (rule undo_chain_prefix)
  with Cons show ?thesis by simp
qed

lemma touched_fit_put:
  "touched_fit a es \<Longrightarrow> touched_fit (put_all a idx (map to_int32 vs)) es"
  by (simp add: touched_fit_def list_all_iff put_all_fits to_int32_fits)

lemma touched_fit_new:
  assumes "distinct idx" "length vs = length idx" "list_all (\<lambda>i. i < length a) idx"
  shows "list_all (\<lambda>i. int_fits 32 (put_all a idx (map to_int32 vs) ! i)) idx"
proof -
  have "map (\<lambda>i. put_all a idx (map to_int32 vs) ! i) idx = map to_int32 vs"
    using assms by (intro take_put_all) simp_all
  then have "list_all (int_fits 32) (map (\<lambda>i. put_all a idx (map to_int32 vs) ! i) idx)"
    by (simp only: list_all_to_int32)
  then show ?thesis by (simp add: list_all_iff)
qed

lemma touched_fit_tl: "touched_fit a es \<Longrightarrow> touched_fit a (tl es)"
  by (cases es) (simp_all add: touched_fit_def)

lemma touched_fit_butlast: "touched_fit a es \<Longrightarrow> touched_fit a (butlast es)"
  by (auto simp: touched_fit_def list_all_iff dest: in_set_butlastD)

lemma touched_fit_snoc:
  "touched_fit a (es @ [e]) = (touched_fit a es \<and> list_all (\<lambda>i. int_fits 32 (a ! i)) (e_indices e))"
  by (auto simp: touched_fit_def)

lemma touched_fit_last:
  "touched_fit a es \<Longrightarrow> es \<noteq> [] \<Longrightarrow> map to_int32 (map (\<lambda>i. a ! i) (e_indices (last es)))
     = map (\<lambda>i. a ! i) (e_indices (last es))"
proof -
  assume t: "touched_fit a es" and ne: "es \<noteq> []"
  from ne have "last es \<in> set es" by (rule last_in_set)
  with t have "list_all (\<lambda>i. int_fits 32 (a ! i)) (e_indices (last es))"
    by (auto simp: touched_fit_def list_all_iff)
  then show ?thesis by (simp add: list_all_iff to_int32_id)
qed

lemma map_to_int32_put:
  "map to_int32 (put_all a idx (map to_int32 vs)) = put_all (map to_int32 a) idx (map to_int32 vs)"
  by (simp add: map_put_all to_int32_idem comp_def)

lemma map_nth_map:
  "list_all (\<lambda>i. i < length a) idx \<Longrightarrow> map (\<lambda>i. map f a ! i) idx = map f (map (\<lambda>i. a ! i) idx)"
  by (simp add: list_all_iff)

lemma commit_edit_inv:
  assumes inv: "history_inv s" and d: "distinct idx"
    and t: "np_take (assignment s) idx = Inr cur"
    and c: "commit_edit idx cur new desc s = Inr s'" and l: "length new = length cur"
  shows "history_inv s'"
proof -
  let ?a = "assignment s"
  let ?A = "map to_int32 ?a"
  let ?e = "\<lparr>e_indices = idx, e_before = cur, e_after = new, e_description = desc\<rparr>"
  from t have r: "list_all (\<lambda>i. i < length ?a) idx" and cur: "cur = map (\<lambda>i. ?a ! i) idx"
    using np_take_Inr by blast+
  from r have rA: "list_all (\<lambda>i. i < length ?A) idx" by simp
  from l cur have ln: "length new = length idx" by simp
  then have lnA: "length (map to_int32 new) = length idx" by simp
  have put: "np_put_int32 ?a idx new = Inr (put_all ?a idx (map to_int32 new))"
    using ln r by (rule np_put_int32_same_length)
  let ?a' = "put_all ?a idx (map to_int32 new)"
  let ?A' = "put_all ?A idx (map to_int32 new)"
  have A': "map to_int32 ?a' = ?A'" by (rule map_to_int32_put)
  have wf: "wf_edit (length ?A') ?e"
    using d r ln cur by (simp add: wf_edit_def length_put_all)
  have ag: "map (\<lambda>i. ?A' ! i) (e_indices ?e) = map to_int32 (e_after ?e)"
    using take_put_all [OF d lnA rA] by simp
  have "map to_int32 cur = map (\<lambda>i. ?A ! i) idx"
    using map_nth_map [OF r, of to_int32] cur by simp
  then have restore: "put_all ?A' (e_indices ?e) (map to_int32 (e_before ?e)) = ?A"
    using put_all_restore [OF d lnA rA] by simp
  from inv have "undo_chain ?A (rev (undo_stack s))" by (simp add: history_inv_def)
  with wf ag restore have full: "undo_chain ?A' (rev (undo_stack s @ [?e]))" by simp
  then have tl: "undo_chain ?A' (rev (tl (undo_stack s @ [?e])))" by (rule undo_chain_tl)
  from inv have "touched_fit ?a (undo_stack s)" by (simp add: history_inv_def)
  then have "touched_fit ?a' (undo_stack s)" by (rule touched_fit_put)
  moreover have "list_all (\<lambda>i. int_fits 32 (?a' ! i)) idx"
    using d ln r by (rule touched_fit_new)
  ultimately have tf: "touched_fit ?a' (undo_stack s @ [?e])" by (simp add: touched_fit_snoc)
  then have tt: "touched_fit ?a' (tl (undo_stack s @ [?e]))" by (rule touched_fit_tl)
  show ?thesis
  proof (cases "int (length (undo_stack s @ [?e])) > max_history s")
    case True
    with c put have "s' = s\<lparr>assignment := ?a', undo_stack := tl (undo_stack s @ [?e]),
        redo_stack := []\<rparr>"
      by (simp add: commit_edit_def Let_def)
    with tl tt A' show ?thesis by (simp add: history_inv_def touched_fit_def)
  next
    case False
    with c put have "s' = s\<lparr>assignment := ?a', undo_stack := undo_stack s @ [?e],
        redo_stack := []\<rparr>"
      by (simp add: commit_edit_def Let_def)
    with full tf A' show ?thesis by (simp add: history_inv_def touched_fit_def)
  qed
qed

lemma assign_indices_inv:
  assumes "history_inv s" "assign_indices gid indices mode s = Inr s'"
  shows "history_inv s'"
proof -
  have d: "distinct (np_unique indices)" by (rule distinct_np_unique)
  from assign_indices_cases [OF assms(2)] obtain cur where
    t: "np_take (assignment s) (np_unique indices) = Inr cur" and
    c: "s' = s
        \<or> commit_edit (np_unique indices) cur (map (\<lambda>_. 0) cur)
                 (''remove '' @ str_nat (length (np_unique indices))) s = Inr s'
        \<or> commit_edit (np_unique indices) cur (map (\<lambda>c. if c = gid then 0 else gid) cur)
                 (''toggle '' @ str_nat (length (np_unique indices)) @ '' to group '' @ str_int gid) s
               = Inr s'
        \<or> commit_edit (np_unique indices) cur (map (\<lambda>c. if c = gid then c else gid) cur)
                 (''add '' @ str_nat (length (np_unique indices)) @ '' to group '' @ str_int gid) s
               = Inr s'"
    by blast
  from c show ?thesis
  proof (elim disjE)
    assume "s' = s"
    with assms(1) show ?thesis by simp
  next
    assume "commit_edit (np_unique indices) cur (map (\<lambda>_. 0) cur)
                 (''remove '' @ str_nat (length (np_unique indices))) s = Inr s'"
    with assms(1) d t show ?thesis by (rule commit_edit_inv) simp
  next
    assume "commit_edit (np_unique indices) cur (map (\<lambda>c. if c = gid then 0 else gid) cur)
                 (''toggle '' @ str_nat (length (np_unique indices)) @ '' to group '' @ str_int gid) s
               = Inr s'"
    with assms(1) d t show ?thesis by (rule commit_edit_inv) simp
  next
    assume "commit_edit (np_unique indices) cur (map (\<lambda>c. if c = gid then c else gid) cur)
                 (''add '' @ str_nat (length (np_unique indices)) @ '' to group '' @ str_int gid) s
               = Inr s'"
    with assms(1) d t show ?thesis by (rule commit_edit_inv) simp
  qed
qed

lemma rev_nonempty: "u \<noteq> [] \<Longrightarrow> rev u = last u # rev (butlast u)"
  by (induction u rule: rev_induct) simp_all

lemma undo_success:
  assumes inv: "history_inv s" and ne: "undo_stack s \<noteq> []"
  shows "undo s = Inr (Some (last (undo_stack s)),
           s\<lparr>undo_stack := butlast (undo_stack s),
             assignment := put_all (assignment s) (e_indices (last (undo_stack s)))
                              (map to_int32 (e_before (last (undo_stack s)))),
             redo_stack := redo_stack s @ [last (undo_stack s)]\<rparr>)"
proof -
  let ?e = "last (undo_stack s)"
  from inv ne have "wf_edit (length (assignment s)) ?e"
    by (simp add: history_inv_def rev_nonempty)
  then have "np_put_int32 (assignment s) (e_indices ?e) (e_before ?e)
      = Inr (put_all (assignment s) (e_indices ?e) (map to_int32 (e_before ?e)))"
    by (simp add: wf_edit_def np_put_int32_same_length)
  with ne show ?thesis by (simp add: undo_def Let_def)
qed

lemma redo_success:
  assumes inv: "history_inv s" and ne: "redo_stack s \<noteq> []"
  shows "redo s = Inr (Some (last (redo_stack s)),
           s\<lparr>redo_stack := butlast (redo_stack s),
             assignment := put_all (assignment s) (e_indices (last (redo_stack s)))
                              (map to_int32 (e_after (last (redo_stack s)))),
             undo_stack := undo_stack s @ [last (redo_stack s)]\<rparr>)"
proof -
  let ?e = "last (redo_stack s)"
  from inv ne have "wf_edit (length (assignment s)) ?e"
    by (simp add: history_inv_def rev_nonempty)
  then have "np_put_int32 (assignment s) (e_indices ?e) (e_after ?e)
      = Inr (put_all (assignment s) (e_indices ?e) (map to_int32 (e_after ?e)))"
    by (simp add: wf_edit_def np_put_int32_same_length)
  with ne show ?thesis by (simp add: redo_def Let_def)
qed

lemma undo_step:
  assumes inv: "history_inv s" and ne: "undo_stack s \<noteq> []"
  shows "\<exists>s1. undo s = Inr (Some (last (undo_stack s)), s1) \<and> history_inv s1
           \<and> redo s1 = Inr (Some (last (undo_stack s)), s)"
proof -
  let ?e = "last (undo_stack s)"
  let ?idx = "e_indices ?e"
  let ?a = "assignment s"
  let ?A = "map to_int32 ?a"
  let ?a1 = "put_all ?a ?idx (map to_int32 (e_before ?e))"
  let ?A1 = "put_all ?A ?idx (map to_int32 (e_before ?e))"
  let ?s1 = "s\<lparr>undo_stack := butlast (undo_stack s), assignment := ?a1,
               redo_stack := redo_stack s @ [?e]\<rparr>"
  have u: "undo s = Inr (Some ?e, ?s1)" using inv ne by (rule undo_success)
  have A1: "map to_int32 ?a1 = ?A1" by (rule map_to_int32_put)
  from inv ne have wf: "wf_edit (length ?a) ?e"
    and ag: "map (\<lambda>i. ?A ! i) ?idx = map to_int32 (e_after ?e)"
    and rest: "undo_chain ?A1 (rev (butlast (undo_stack s)))"
    by (simp_all add: history_inv_def rev_nonempty)
  from inv have tu: "touched_fit ?a (undo_stack s)" and tr: "touched_fit ?a (redo_stack s)"
    by (simp_all add: history_inv_def)
  from wf have d: "distinct ?idx"
    and r: "list_all (\<lambda>i. i < length ?a) ?idx"
    and lb: "length (e_before ?e) = length ?idx"
    and la: "length (e_after ?e) = length ?idx"
    by (simp_all add: wf_edit_def)
  from r have rA: "list_all (\<lambda>i. i < length ?A) ?idx" by simp
  from lb have lbA: "length (map to_int32 (e_before ?e)) = length ?idx" by simp
  have restoreA: "put_all ?A1 ?idx (map to_int32 (e_after ?e)) = ?A"
    using put_all_restore [OF d lbA rA] ag by simp
  have ag1: "map (\<lambda>i. ?A1 ! i) ?idx = map to_int32 (e_before ?e)"
    using d lbA rA by (rule take_put_all)
  from inv have rc: "redo_chain ?A (rev (redo_stack s))" by (simp add: history_inv_def)
  have t1: "touched_fit ?a1 (butlast (undo_stack s))"
    using tu by (intro touched_fit_butlast touched_fit_put)
  have "touched_fit ?a1 (redo_stack s)" using tr by (rule touched_fit_put)
  moreover have "list_all (\<lambda>i. int_fits 32 (?a1 ! i)) ?idx"
    using d lb r by (rule touched_fit_new)
  ultimately have t2: "touched_fit ?a1 (redo_stack s @ [?e])" by (simp add: touched_fit_snoc)
  have inv1: "history_inv ?s1"
    using rest wf ag1 restoreA rc t1 t2 A1 by (simp add: history_inv_def length_put_all)
  have "map to_int32 (e_after ?e) = map to_int32 (map (\<lambda>i. ?a ! i) ?idx)"
    using ag map_nth_map [OF r, of to_int32] by simp
  also have "\<dots> = map (\<lambda>i. ?a ! i) ?idx" using tu ne by (rule touched_fit_last)
  finally have "put_all ?a1 ?idx (map to_int32 (e_after ?e)) = ?a"
    using put_all_restore [OF d lbA r] by simp
  moreover have ne1: "redo_stack ?s1 \<noteq> []" by simp
  ultimately have "redo ?s1 = Inr (Some ?e, s)"
    using redo_success [OF inv1 ne1] ne by simp
  with u inv1 show ?thesis by blast
qed

lemma redo_step:
  assumes inv: "history_inv s" and ne: "redo_stack s \<noteq> []"
  shows "\<exists>s1. redo s = Inr (Some (last (redo_stack s)), s1) \<and> history_inv s1
           \<and> undo s1 = Inr (Some (last (redo_stack s)), s)"
proof -
  let ?e = "last (redo_stack s)"
  let ?idx = "e_indices ?e"
  let ?a = "assignment s"
  let ?A = "map to_int32 ?a"
  let ?a1 = "put_all ?a ?idx (map to_int32 (e_after ?e))"
  let ?A1 = "put_all ?A ?idx (map to_int32 (e_after ?e))"
  let ?s1 = "s\<lparr>redo_stack := butlast (redo_stack s), assignment := ?a1,
               undo_stack := undo_stack s @ [?e]\<rparr>"
  have u: "redo s = Inr (Some ?e, ?s1)" using inv ne by (rule redo_success)
  have A1: "map to_int32 ?a1 = ?A1" by (rule map_to_int32_put)
  from inv ne have wf: "wf_edit (length ?a) ?e"
    and ag: "map (\<lambda>i. ?A ! i) ?idx = map to_int32 (e_before ?e)"
    and rest: "redo_chain ?A1 (rev (butlast (redo_stack s)))"
    by (simp_all add: history_inv_def rev_nonempty)
  from inv have tu: "touched_fit ?a (redo_stack s)" and tr: "touched_fit ?a (undo_stack s)"
    by (simp_all add: history_inv_def)
  from wf have d: "distinct ?idx"
    and r: "list_all (\<lambda>i. i < length ?a) ?idx"
    and lb: "length (e_after ?e) = length ?idx"
    and la: "length (e_before ?e) = length ?idx"
    by (simp_all add: wf_edit_def)
  from r have rA: "list_all (\<lambda>i. i < length ?A) ?idx" by simp
  from lb have lbA: "length (map to_int32 (e_after ?e)) = length ?idx" by simp
  have restoreA: "put_all ?A1 ?idx (map to_int32 (e_before ?e)) = ?A"
    using put_all_restore [OF d lbA rA] ag by simp
  have ag1: "map (\<lambda>i. ?A1 ! i) ?idx = map to_int32 (e_after ?e)"
    using d lbA rA by (rule take_put_all)
  from inv have rc: "undo_chain ?A (rev (undo_stack s))" by (simp add: history_inv_def)
  have t1: "touched_fit ?a1 (butlast (redo_stack s))"
    using tu by (intro touched_fit_butlast touched_fit_put)
  have "touched_fit ?a1 (undo_stack s)" using tr by (rule touched_fit_put)
  moreover have "list_all (\<lambda>i. int_fits 32 (?a1 ! i)) ?idx"
    using d lb r by (rule touched_fit_new)
  ultimately have t2: "touched_fit ?a1 (undo_stack s @ [?e])" by (simp add: touched_fit_snoc)
  have inv1: "history_inv ?s1"
    using rest wf ag1 restoreA rc t1 t2 A1 by (simp add: history_inv_def length_put_all)
  have "map to_int32 (e_before ?e) = map to_int32 (map (\<lambda>i. ?a ! i) ?idx)"
    using ag map_nth_map [OF r, of to_int32] by simp
  also have "\<dots> = map (\<lambda>i. ?a ! i) ?idx" using tu ne by (rule touched_fit_last)
  finally have "put_all ?a1 ?idx (map to_int32 (e_before ?e)) = ?a"
    using put_all_restore [OF d lbA r] by simp
  moreover have ne1: "undo_stack ?s1 \<noteq> []" by simp
  ultimately have "undo ?s1 = Inr (Some ?e, s)"
    using undo_success [OF inv1 ne1] ne by simp
  with u inv1 show ?thesis by blast
qed

lemma undo_inv: "history_inv s \<Longrightarrow> undo s = Inr (r, s') \<Longrightarrow> history_inv s'"
proof (cases "undo_stack s = []")
  case True
  assume "history_inv s" "undo s = Inr (r, s')"
  with True show ?thesis by (simp add: undo_def)
next
  case False
  assume h: "history_inv s" "undo s = Inr (r, s')"
  from undo_step [OF h(1) False] h(2) show ?thesis by auto
qed

lemma redo_inv: "history_inv s \<Longrightarrow> redo s = Inr (r, s') \<Longrightarrow> history_inv s'"
proof (cases "redo_stack s = []")
  case True
  assume "history_inv s" "redo s = Inr (r, s')"
  with True show ?thesis by (simp add: redo_def)
next
  case False
  assume h: "history_inv s" "redo s = Inr (r, s')"
  from redo_step [OF h(1) False] h(2) show ?thesis by auto
qed

lemma edit_reachable_inv: "edit_reachable s \<Longrightarrow> history_inv s"
proof (induction rule: edit_reachable.induct)
  case (fresh s)
  then show ?case by (simp add: history_inv_def touched_fit_def)
next
  case (assign s gid indices mode s')
  then show ?case by (blast intro: assign_indices_inv)
next
  case (undo s r s')
  then show ?case by (blast intro: undo_inv)
next
  case (redo s r s')
  then show ?case by (blast intro: redo_inv)
qed

subsection \<open>The depth of the history\<close>

lemma assign_indices_bound:
  assumes a: "assign_indices gid indices mode s = Inr s'"
    and b: "int (length (undo_stack s) + length (redo_stack s)) \<le> max_history s"
  shows "int (length (undo_stack s') + length (redo_stack s')) \<le> max_history s'
     \<and> max_history s' = max_history s"
proof (cases "known_mode mode")
  case False
  with a have "s' = s" by (rule assign_indices_unknown)
  with b show ?thesis by simp
next
  case True
  from assign_indices_stacks [OF a True] obtain e where
    m: "max_history s' = max_history s" and r: "redo_stack s' = []"
    and u: "undo_stack s' = (if int (length (undo_stack s)) + 1 > max_history s
                             then tl (undo_stack s @ [e]) else undo_stack s @ [e])"
    by blast
  from u b have "int (length (undo_stack s')) \<le> max_history s"
    by (auto split: if_splits)
  with m r show ?thesis by simp
qed

lemma undo_bound:
  assumes "undo s = Inr (r, s')"
  shows "length (undo_stack s') + length (redo_stack s')
           = length (undo_stack s) + length (redo_stack s)
     \<and> max_history s' = max_history s"
proof (cases "undo_stack s = []")
  case True
  with assms show ?thesis by (simp add: undo_def)
next
  case False
  then have "length (undo_stack s) > 0" by simp
  with assms False show ?thesis
    by (auto simp: undo_def Let_def split: sum.splits)
qed

lemma redo_bound:
  assumes "redo s = Inr (r, s')"
  shows "length (undo_stack s') + length (redo_stack s')
           = length (undo_stack s) + length (redo_stack s)
     \<and> max_history s' = max_history s"
proof (cases "redo_stack s = []")
  case True
  with assms show ?thesis by (simp add: redo_def)
next
  case False
  then have "length (redo_stack s) > 0" by simp
  with assms False show ?thesis
    by (auto simp: redo_def Let_def split: sum.splits)
qed

lemma reachable_bound:
  "reachable s \<Longrightarrow> 0 \<le> max_history s
   \<Longrightarrow> int (length (undo_stack s) + length (redo_stack s)) \<le> max_history s"
proof (induction rule: reachable.induct)
  case (fresh s)
  then show ?case by simp
next
  case (assign s gid indices mode s')
  have m: "max_history s' = max_history s"
  proof (cases "known_mode mode")
    case True
    with assign.hyps(2) show ?thesis using assign_indices_stacks by blast
  next
    case False
    with assign.hyps(2) show ?thesis using assign_indices_unknown by blast
  qed
  with assign have "int (length (undo_stack s) + length (redo_stack s)) \<le> max_history s"
    by simp
  with assign.hyps(2) show ?case using assign_indices_bound by blast
next
  case (undo s r s')
  from undo_bound [OF undo.hyps(2)] undo show ?case by simp
next
  case (redo s r s')
  from redo_bound [OF redo.hyps(2)] redo show ?case by simp
next
  case (add_group s gid nm col g s')
  then show ?case by (auto simp: add_group_def Let_def)
next
  case (remove_group s gid)
  then show ?case by (cases "gid \<in> fst ` set (groups s)") (simp_all add: remove_group_def)
next
  case (clear_groups s)
  then show ?case by (simp add: clear_groups_def)
qed

subsection \<open>Colour rows\<close>

lemma ubyte_row_ok: "rgba_ok c \<Longrightarrow> ubyte_row c = Inr c"
  by (simp add: rgba_ok_def ubyte_row_def broadcast_to_def)

lemma color_rows_ok:
  assumes "rgba_ok un" "list_all (\<lambda>kg. rgba_ok (g_color (snd kg))) grp"
  shows "color_rows grp un ls =
     Inr (map (\<lambda>l. if l = 0 then un
                    else case map_of grp l of None \<Rightarrow> un | Some g \<Rightarrow> g_color g) ls)"
proof (induction ls)
  case Nil
  show ?case by simp
next
  case (Cons l ls)
  have "\<And>g. map_of grp l = Some g \<Longrightarrow> rgba_ok (g_color g)"
  proof -
    fix g assume "map_of grp l = Some g"
    then have "(l, g) \<in> set grp" by (rule map_of_SomeD)
    with assms(2) show "rgba_ok (g_color g)" by (auto simp: list_all_iff)
  qed
  with Cons assms(1) show ?case
    by (simp add: ubyte_row_ok split: option.splits)
qed

subsection \<open>The example states\<close>

lemma str_nat_digit: "n < 10 \<Longrightarrow> str_nat n = [''0123456789'' ! n]"
  by (simp add: str_nat.simps)

lemma demo_toggle: "assign_indices 1 [1, 0, 1] ''toggle'' demo_state = Inr demo_toggled"
  by (simp add: assign_indices_def np_unique_def np_take_def commit_edit_def np_put_int32_def np_put_def to_int32_def int_fits_def
        broadcast_to_def demo_state_def demo_toggled_def demo_edit_def Let_def
        str_nat_digit str_int_def)

lemma demo_undo: "undo demo_toggled = Inr (Some demo_edit, demo_undone)"
  by (simp add: undo_def np_put_int32_def np_put_def to_int32_def int_fits_def broadcast_to_def demo_state_def demo_toggled_def
        demo_undone_def demo_edit_def Let_def)

lemma demo_redo: "redo demo_undone = Inr (Some demo_edit, demo_toggled)"
  by (simp add: redo_def np_put_int32_def np_put_def to_int32_def int_fits_def broadcast_to_def demo_state_def demo_toggled_def
        demo_undone_def demo_edit_def Let_def)

lemma demo_toggled_reachable: "edit_reachable demo_toggled"
proof -
  have "edit_reachable demo_state"
    by (rule edit_reachable.fresh) (simp_all add: demo_state_def)
  then show ?thesis using demo_toggle by (rule edit_reachable.assign)
qed

lemma demo_undone_reachable: "edit_reachable demo_undone"
  using demo_toggled_reachable demo_undo by (rule edit_reachable.undo)

lemma demo_small_toggle:
  "assign_indices 1 [1, 0, 1] ''toggle'' demo_small = Inr demo_small_toggled"
  by (simp add: assign_indices_def np_unique_def np_take_def commit_edit_def np_put_int32_def np_put_def to_int32_def int_fits_def
        broadcast_to_def demo_state_def demo_small_def demo_small_toggled_def demo_edit_def
        Let_def str_nat_digit str_int_def)

lemma demo_small_remove:
  "assign_indices 1 [3] ''remove'' demo_small_toggled = Inr demo_small_removed"
  by (simp add: assign_indices_def np_unique_def np_take_def commit_edit_def np_put_int32_def np_put_def to_int32_def int_fits_def
        broadcast_to_def demo_state_def demo_small_def demo_small_toggled_def
        demo_small_removed_def demo_edit2_def Let_def str_nat_digit)

lemma demo_small_toggled_reachable: "reachable demo_small_toggled"
proof -
  have "reachable demo_small"
    by (rule reachable.fresh) (simp_all add: demo_small_def demo_state_def)
  then show ?thesis using demo_small_toggle by (rule reachable.assign)
qed

subsection \<open>The claims\<close>

text \<open>
  Claim C3, as amended. With an active group \<open>gid\<close>, \<open>0 < gid < 2^31\<close> (an id that an
  \<^verbatim>\<open>int32\<close> label can hold), and indices inside the array, each mode succeeds and
  rewrites exactly the given indices. Add: a given index labelled \<open>gid\<close> keeps \<open>gid\<close>, one
  labelled 0 becomes \<open>gid\<close>, and the same Add again changes no label. Remove: every given
  index becomes 0. Toggle: a given index labelled \<open>gid\<close> becomes 0, every other given
  index becomes \<open>gid\<close>. Indices not given keep their label.
\<close>

theorem assign_indices_modes:
  assumes "0 < gid" and "gid < 2 ^ 31"
    and "list_all (\<lambda>i. i < length (assignment s)) indices"
  shows "(\<exists>s'. assign_indices gid indices ''add'' s = Inr s'
            \<and> length (assignment s') = length (assignment s)
            \<and> (\<forall>i < length (assignment s).
                  (i \<in> set indices \<and> assignment s ! i = gid \<longrightarrow> assignment s' ! i = gid)
                \<and> (i \<in> set indices \<and> assignment s ! i = 0 \<longrightarrow> assignment s' ! i = gid)
                \<and> (i \<notin> set indices \<longrightarrow> assignment s' ! i = assignment s ! i))
            \<and> (\<exists>s''. assign_indices gid indices ''add'' s' = Inr s''
                  \<and> assignment s'' = assignment s'))
       \<and> (\<exists>s'. assign_indices gid indices ''remove'' s = Inr s'
            \<and> length (assignment s') = length (assignment s)
            \<and> (\<forall>i < length (assignment s).
                  (i \<in> set indices \<longrightarrow> assignment s' ! i = 0)
                \<and> (i \<notin> set indices \<longrightarrow> assignment s' ! i = assignment s ! i)))
       \<and> (\<exists>s'. assign_indices gid indices ''toggle'' s = Inr s'
            \<and> length (assignment s') = length (assignment s)
            \<and> (\<forall>i < length (assignment s).
                  (i \<in> set indices \<and> assignment s ! i = gid \<longrightarrow> assignment s' ! i = 0)
                \<and> (i \<in> set indices \<and> assignment s ! i \<noteq> gid \<longrightarrow> assignment s' ! i = gid)
                \<and> (i \<notin> set indices \<longrightarrow> assignment s' ! i = assignment s ! i)))"
proof -
  have add: "\<exists>s'. assign_indices gid indices ''add'' s = Inr s'
            \<and> length (assignment s') = length (assignment s)
            \<and> (\<forall>i < length (assignment s).
                  (i \<in> set indices \<and> assignment s ! i = gid \<longrightarrow> assignment s' ! i = gid)
                \<and> (i \<in> set indices \<and> assignment s ! i = 0 \<longrightarrow> assignment s' ! i = gid)
                \<and> (i \<notin> set indices \<longrightarrow> assignment s' ! i = assignment s ! i))
            \<and> (\<exists>s''. assign_indices gid indices ''add'' s' = Inr s''
                  \<and> assignment s'' = assignment s')"
  proof -
    from assign_indices_labels_small [OF assms(3) _ assms(1) assms(2), of "''add''"] obtain s' where
      s': "assign_indices gid indices ''add'' s = Inr s'"
      and l: "length (assignment s') = length (assignment s)"
      and v: "\<forall>i < length (assignment s). assignment s' ! i =
             (if i \<in> set indices then label_after ''add'' gid (assignment s ! i)
              else assignment s ! i)"
      by (auto simp: known_mode_def)
    from assms(3) l have r': "list_all (\<lambda>i. i < length (assignment s')) indices" by simp
    from assign_indices_labels_small [OF r' _ assms(1) assms(2), of "''add''"] obtain s'' where
      s'': "assign_indices gid indices ''add'' s' = Inr s''"
      and l': "length (assignment s'') = length (assignment s')"
      and v': "\<forall>i < length (assignment s'). assignment s'' ! i =
             (if i \<in> set indices then label_after ''add'' gid (assignment s' ! i)
              else assignment s' ! i)"
      by (auto simp: known_mode_def)
    have "assignment s'' = assignment s'"
    proof (rule nth_equalityI)
      show "length (assignment s'') = length (assignment s')" by (rule l')
    next
      fix i assume "i < length (assignment s'')"
      with l l' have i: "i < length (assignment s)" "i < length (assignment s')" by simp_all
      with v v' show "assignment s'' ! i = assignment s' ! i"
        by (simp add: label_after_def)
    qed
    with s' l v s'' show ?thesis by (auto simp: label_after_def)
  qed
  have remove: "\<exists>s'. assign_indices gid indices ''remove'' s = Inr s'
            \<and> length (assignment s') = length (assignment s)
            \<and> (\<forall>i < length (assignment s).
                  (i \<in> set indices \<longrightarrow> assignment s' ! i = 0)
                \<and> (i \<notin> set indices \<longrightarrow> assignment s' ! i = assignment s ! i))"
    using assign_indices_labels_small [OF assms(3) _ assms(1) assms(2), of "''remove''"]
    by (auto simp: known_mode_def label_after_def)
  have toggle: "\<exists>s'. assign_indices gid indices ''toggle'' s = Inr s'
            \<and> length (assignment s') = length (assignment s)
            \<and> (\<forall>i < length (assignment s).
                  (i \<in> set indices \<and> assignment s ! i = gid \<longrightarrow> assignment s' ! i = 0)
                \<and> (i \<in> set indices \<and> assignment s ! i \<noteq> gid \<longrightarrow> assignment s' ! i = gid)
                \<and> (i \<notin> set indices \<longrightarrow> assignment s' ! i = assignment s ! i))"
    using assign_indices_labels_small [OF assms(3) _ assms(1) assms(2), of "''toggle''"]
    by (auto simp: known_mode_def label_after_def)
  from add remove toggle show ?thesis by blast
qed

theorem assign_indices_modes_witness:
  "(0::int) < 1 \<and> (1::int) < 2 ^ 31
   \<and> list_all (\<lambda>i. i < length (assignment demo_state)) [1, 0, 1]
   \<and> map_sum id assignment (assign_indices 1 [1, 0, 1] ''add'' demo_state) = Inr [1, 1, 2, 0]
   \<and> map_sum id assignment (assign_indices 1 [1, 0, 1] ''remove'' demo_state) = Inr [0, 0, 2, 0]
   \<and> map_sum id assignment (assign_indices 1 [1, 0, 1] ''toggle'' demo_state) = Inr [1, 0, 2, 0]"
  using assign_indices_modes [of 1 demo_state "[1, 0, 1]"]
  by (simp add: assign_indices_def np_unique_def np_take_def commit_edit_def np_put_int32_def
        np_put_def to_int32_def int_fits_def broadcast_to_def demo_state_def Let_def)

text \<open>
  Claim C3 as stated, for every active group id above 0, fails for an id that an
  \<^verbatim>\<open>int32\<close> label cannot hold: toggling index 0 (labelled 0) with the active group
  \<open>2^31\<close> stores \<open>- 2^31\<close> there, not the group id.
\<close>

theorem assign_indices_int32_counterexample:
  "(0::int) < 2147483648
   \<and> assignment demo_state ! 0 = 0
   \<and> map_sum id assignment (assign_indices 2147483648 [0] ''toggle'' demo_state)
       = Inr [- 2147483648, 1, 2, 0]
   \<and> (- 2147483648::int) \<noteq> 2147483648"
  by (simp add: assign_indices_def np_unique_def np_take_def commit_edit_def np_put_int32_def
        np_put_def to_int32_def int_fits_def broadcast_to_def demo_state_def Let_def)

text \<open>
  Claim C1, as amended. In every state reached by assignment mutations, undo and redo:
  with a non-empty undo stack, undo returns the top edit and the redo that follows
  returns it again and gives back the very state before the pair (labels and both
  stacks); with a non-empty redo stack, redo followed by undo does the same; with an
  empty stack the call returns none and changes nothing.
\<close>

theorem undo_redo_roundtrip:
  assumes "edit_reachable s"
  shows "(undo_stack s \<noteq> [] \<longrightarrow>
           (\<exists>s1. undo s = Inr (Some (last (undo_stack s)), s1)
                 \<and> redo s1 = Inr (Some (last (undo_stack s)), s)))
       \<and> (redo_stack s \<noteq> [] \<longrightarrow>
           (\<exists>s1. redo s = Inr (Some (last (redo_stack s)), s1)
                 \<and> undo s1 = Inr (Some (last (redo_stack s)), s)))
       \<and> (undo_stack s = [] \<longrightarrow> undo s = Inr (None, s))
       \<and> (redo_stack s = [] \<longrightarrow> redo s = Inr (None, s))"
proof -
  from assms have inv: "history_inv s" by (rule edit_reachable_inv)
  have 1: "undo_stack s \<noteq> [] \<longrightarrow>
           (\<exists>s1. undo s = Inr (Some (last (undo_stack s)), s1)
                 \<and> redo s1 = Inr (Some (last (undo_stack s)), s))"
    using undo_step [OF inv] by blast
  have 2: "redo_stack s \<noteq> [] \<longrightarrow>
           (\<exists>s1. redo s = Inr (Some (last (redo_stack s)), s1)
                 \<and> undo s1 = Inr (Some (last (redo_stack s)), s))"
    using redo_step [OF inv] by blast
  have 3: "undo_stack s = [] \<longrightarrow> undo s = Inr (None, s)" by (simp add: undo_def)
  have 4: "redo_stack s = [] \<longrightarrow> redo s = Inr (None, s)" by (simp add: redo_def)
  from 1 2 3 4 show ?thesis by blast
qed

theorem undo_redo_roundtrip_witness:
  "edit_reachable demo_toggled \<and> undo_stack demo_toggled \<noteq> []
   \<and> undo demo_toggled = Inr (Some demo_edit, demo_undone)
   \<and> redo demo_undone = Inr (Some demo_edit, demo_toggled)
   \<and> redo_stack demo_toggled = [] \<and> redo demo_toggled = Inr (None, demo_toggled)
   \<and> edit_reachable demo_undone \<and> redo_stack demo_undone \<noteq> []
   \<and> undo_stack demo_undone = [] \<and> undo demo_undone = Inr (None, demo_undone)"
  using undo_redo_roundtrip [OF demo_toggled_reachable]
    undo_redo_roundtrip [OF demo_undone_reachable]
    demo_toggled_reachable demo_undone_reachable demo_undo demo_redo
  by (simp add: demo_toggled_def demo_undone_def demo_state_def)

text \<open>
  Claim C1 as stated fails where the undo stack is empty and the redo stack is not:
  undo is then a no-op and the redo that follows re-applies the edit, so the labels
  after the pair differ from the labels before it.
\<close>

theorem undo_redo_pair_counterexample:
  "edit_reachable demo_undone
   \<and> undo demo_undone = Inr (None, demo_undone)
   \<and> redo demo_undone = Inr (Some demo_edit, demo_toggled)
   \<and> assignment demo_undone = [0, 1, 2, 0]
   \<and> assignment demo_toggled = [1, 0, 2, 0]
   \<and> assignment demo_toggled \<noteq> assignment demo_undone"
  using demo_undone_reachable demo_redo
  by (simp add: undo_def demo_toggled_def demo_undone_def demo_state_def)

text \<open>
  Claim C7. In every state reached by any operation from an empty history, with a
  positive \<^verbatim>\<open>max_history\<close> (the program always uses 100), the undo stack holds at most
  \<^verbatim>\<open>max_history\<close> edits. A new assignment mutation clears the redo stack and puts the
  new edit on top; when the stack was full, the entry dropped is the bottom one, the
  oldest (\<open>hd\<close> of the list), and the new edit stays.
\<close>

theorem undo_stack_bounded:
  assumes "reachable s" and "0 < max_history s"
  shows "int (length (undo_stack s)) \<le> max_history s
     \<and> (\<forall>gid indices mode s'.
          known_mode mode \<and> assign_indices gid indices mode s = Inr s' \<longrightarrow>
            redo_stack s' = []
          \<and> int (length (undo_stack s')) \<le> max_history s'
          \<and> (\<exists>e. e_indices e = np_unique indices \<and> last (undo_stack s') = e
               \<and> (if int (length (undo_stack s)) < max_history s
                   then undo_stack s' = undo_stack s @ [e]
                   else undo_stack s @ [e] = hd (undo_stack s) # undo_stack s')))"
proof -
  from assms(2) have "0 \<le> max_history s" by simp
  with assms(1) have b: "int (length (undo_stack s) + length (redo_stack s)) \<le> max_history s"
    by (rule reachable_bound)
  then have b1: "int (length (undo_stack s)) \<le> max_history s" by simp
  have "\<And>gid indices mode s'.
          known_mode mode \<Longrightarrow> assign_indices gid indices mode s = Inr s' \<Longrightarrow>
            redo_stack s' = []
          \<and> int (length (undo_stack s')) \<le> max_history s'
          \<and> (\<exists>e. e_indices e = np_unique indices \<and> last (undo_stack s') = e
               \<and> (if int (length (undo_stack s)) < max_history s
                   then undo_stack s' = undo_stack s @ [e]
                   else undo_stack s @ [e] = hd (undo_stack s) # undo_stack s'))"
  proof -
    fix gid indices mode s'
    assume k: "known_mode mode" and a: "assign_indices gid indices mode s = Inr s'"
    from assign_indices_stacks [OF a k] obtain e where
      m: "max_history s' = max_history s" and r: "redo_stack s' = []"
      and i: "e_indices e = np_unique indices"
      and u: "undo_stack s' = (if int (length (undo_stack s)) + 1 > max_history s
                             then tl (undo_stack s @ [e]) else undo_stack s @ [e])"
      by blast
    from assign_indices_bound [OF a b] r
    have bound: "int (length (undo_stack s')) \<le> max_history s'" by simp
    show "redo_stack s' = []
          \<and> int (length (undo_stack s')) \<le> max_history s'
          \<and> (\<exists>e. e_indices e = np_unique indices \<and> last (undo_stack s') = e
               \<and> (if int (length (undo_stack s)) < max_history s
                   then undo_stack s' = undo_stack s @ [e]
                   else undo_stack s @ [e] = hd (undo_stack s) # undo_stack s'))"
    proof (cases "int (length (undo_stack s)) < max_history s")
      case True
      with u have "undo_stack s' = undo_stack s @ [e]" by simp
      with True r bound i show ?thesis by simp
    next
      case False
      with b1 assms(2) have ne: "undo_stack s \<noteq> []" by auto
      from False u have "undo_stack s' = tl (undo_stack s @ [e])" by simp
      with ne have u': "undo_stack s' = tl (undo_stack s) @ [e]" by simp
      with ne have "undo_stack s @ [e] = hd (undo_stack s) # undo_stack s'" by simp
      with False r bound i u' show ?thesis by simp
    qed
  qed
  with b1 show ?thesis by blast
qed

theorem undo_stack_bounded_witness:
  "reachable demo_small_toggled \<and> 0 < max_history demo_small_toggled
   \<and> int (length (undo_stack demo_small_toggled)) \<le> max_history demo_small_toggled
   \<and> known_mode ''remove''
   \<and> assign_indices 1 [3] ''remove'' demo_small_toggled = Inr demo_small_removed
   \<and> redo_stack demo_small_removed = []
   \<and> undo_stack demo_small_toggled = [demo_edit]
   \<and> undo_stack demo_small_removed = [demo_edit2]"
  using undo_stack_bounded [OF demo_small_toggled_reachable] demo_small_toggled_reachable
    demo_small_remove
  by (simp add: demo_small_removed_def demo_small_toggled_def demo_small_def demo_state_def
        known_mode_def)

text \<open>
  Claim C8. For a group id that is a key of the table, \<^verbatim>\<open>remove_group\<close> deletes the key
  (the other keys keep their groups), sets exactly the labels equal to the id to 0,
  leaves every other label as it is, and leaves both stacks as they are: no edit is
  pushed.
\<close>

theorem remove_group_effect:
  assumes "gid \<in> fst ` set (groups s)"
  shows "gid \<notin> fst ` set (groups (remove_group gid s))
     \<and> (\<forall>k. k \<noteq> gid \<longrightarrow> map_of (groups (remove_group gid s)) k = map_of (groups s) k)
     \<and> length (assignment (remove_group gid s)) = length (assignment s)
     \<and> (\<forall>i < length (assignment s).
           (assignment s ! i = gid \<longrightarrow> assignment (remove_group gid s) ! i = 0)
         \<and> (assignment s ! i \<noteq> gid \<longrightarrow>
               assignment (remove_group gid s) ! i = assignment s ! i))
     \<and> undo_stack (remove_group gid s) = undo_stack s
     \<and> redo_stack (remove_group gid s) = redo_stack s"
proof -
  have 1: "gid \<notin> fst ` set (AList.delete gid (groups s))"
    by (rule delete_notin_dom)
  have 2: "\<forall>k. k \<noteq> gid \<longrightarrow> map_of (AList.delete gid (groups s)) k = map_of (groups s) k"
    by (simp add: map_of_delete)
  from assms 1 2 show ?thesis
    by (simp add: remove_group_def)
qed

theorem remove_group_effect_witness:
  "1 \<in> fst ` set (groups demo_toggled)
   \<and> map fst (groups (remove_group 1 demo_toggled)) = [2]
   \<and> assignment demo_toggled = [1, 0, 2, 0]
   \<and> assignment (remove_group 1 demo_toggled) = [0, 0, 2, 0]
   \<and> undo_stack (remove_group 1 demo_toggled) = [demo_edit]
   \<and> redo_stack (remove_group 1 demo_toggled) = []"
  using remove_group_effect [of 1 demo_toggled]
  by (simp add: remove_group_def demo_toggled_def demo_state_def AList.delete_eq)

text \<open>
  Claim C10. With RGBA colours (four bytes) for the unassigned colour and for every
  group, \<^verbatim>\<open>colors_rgba_for_all\<close> returns one row per label: the unassigned colour where
  the label is 0 or is no key of the group table (a dangling label is no failed lookup),
  the colour of the label's group otherwise.
\<close>

theorem colors_rgba_for_all_total:
  assumes "rgba_ok un" and "list_all (\<lambda>kg. rgba_ok (g_color (snd kg))) (groups s)"
  shows "\<exists>rows. colors_rgba_for_all un s = Inr rows
     \<and> length rows = length (assignment s)
     \<and> (\<forall>i < length (assignment s).
          (assignment s ! i = 0 \<or> assignment s ! i \<notin> fst ` set (groups s) \<longrightarrow> rows ! i = un)
        \<and> (\<forall>g. assignment s ! i \<noteq> 0 \<and> map_of (groups s) (assignment s ! i) = Some g
               \<longrightarrow> rows ! i = g_color g))"
proof -
  let ?rows = "map (\<lambda>l. if l = 0 then un
                    else case map_of (groups s) l of None \<Rightarrow> un | Some g \<Rightarrow> g_color g)
                 (assignment s)"
  have e: "colors_rgba_for_all un s = Inr ?rows"
    using assms by (simp add: colors_rgba_for_all_def color_rows_ok)
  have "\<forall>i < length (assignment s).
          (assignment s ! i = 0 \<or> assignment s ! i \<notin> fst ` set (groups s) \<longrightarrow> ?rows ! i = un)
        \<and> (\<forall>g. assignment s ! i \<noteq> 0 \<and> map_of (groups s) (assignment s ! i) = Some g
               \<longrightarrow> ?rows ! i = g_color g)"
    by (auto simp: map_of_eq_None_iff [symmetric] split: option.splits)
  with e show ?thesis by simp
qed

theorem colors_rgba_for_all_total_witness:
  "rgba_ok rgba_unassigned_default
   \<and> list_all (\<lambda>kg. rgba_ok (g_color (snd kg))) (groups demo_dangling)
   \<and> assignment demo_dangling = [0, 1, 7, 2]
   \<and> colors_rgba_for_all rgba_unassigned_default demo_dangling =
       Inr [[160, 160, 160, 255], [230, 25, 75, 255], [160, 160, 160, 255], [60, 180, 75, 255]]"
  using colors_rgba_for_all_total [of rgba_unassigned_default demo_dangling]
  by (simp add: colors_rgba_for_all_def ubyte_row_def broadcast_to_def rgba_ok_def
        rgba_unassigned_default_def demo_dangling_def demo_state_def)

section \<open>Proofs: line selection\<close>







lemma filter_zip3:
  "map fst (filter (\<lambda>(i, a, b). Q i a b) (zip idx (zip (map f idx) (map g idx))))
     = filter (\<lambda>i. Q i (f i) (g i)) idx"
  by (induction idx) simp_all

lemma apply_circle_constraint_ok:
  assumes len: "length (d_x (data (state w))) = length (d_y (data (state w)))"
    and r: "list_all (\<lambda>i. i < length (d_x (data (state w)))) indices"
  shows "apply_circle_constraint w indices = Inr (filter (in_mask w) indices)"
proof (cases "circle_center w")
  case None
  then show ?thesis by (simp add: apply_circle_constraint_def in_mask_def)
next
  case (Some ctr)
  obtain x0 y0 where ctr: "ctr = (x0, y0)" by (cases ctr)
  show ?thesis
  proof (cases "circle_enabled w \<and> circle_radius w > 0")
    case False
    with Some ctr show ?thesis
      by (auto simp: apply_circle_constraint_def in_mask_def)
  next
    case True
    from r len have tx: "np_take (d_x (data (state w))) indices
        = Inr (map (\<lambda>i. d_x (data (state w)) ! i) indices)"
      and ty: "np_take (d_y (data (state w))) indices
        = Inr (map (\<lambda>i. d_y (data (state w)) ! i) indices)"
      by (simp_all add: np_take_def)
    have m: "in_mask w = (\<lambda>i. (d_x (data (state w)) ! i - x0) * (d_x (data (state w)) ! i - x0)
              + (d_y (data (state w)) ! i - y0) * (d_y (data (state w)) ! i - y0)
            \<le> circle_radius w * circle_radius w)"
      using Some ctr True by (auto simp: in_mask_def fun_eq_iff)
    show ?thesis
      unfolding m using Some ctr True tx ty
      by (simp add: apply_circle_constraint_def filter_zip3)
  qed
qed

lemma band_hits_filter:
  "filter (in_mask w) (filter (\<lambda>i. \<bar>across ! i - c\<bar> \<le> R) [0..<length across])
     = band_hits across c R w"
  by (simp add: band_hits_def conj_commute)



lemma line_hits_eq:
  assumes len: "length (d_x (data (state w))) = length (d_y (data (state w)))"
    and la: "length across = length (d_x (data (state w)))"
    and ll: "length along = length (d_x (data (state w)))"
  shows "line_hits across along c R N off w =
     (if band_hits across c R w = [] then Inr None
      else Inr (Some (map (\<lambda>j. band_hits across c R w ! j)
                        (np_argsort (map (\<lambda>i. along ! i) (band_hits across c R w))),
                      decimate N off
                        (map (\<lambda>j. band_hits across c R w ! j)
                           (np_argsort (map (\<lambda>i. along ! i) (band_hits across c R w)))))))"
proof -
  have "list_all (\<lambda>i. i < length (d_x (data (state w))))
          (filter (\<lambda>i. \<bar>across ! i - c\<bar> \<le> R) [0..<length across])"
    using la by (simp add: list_all_iff)
  then have c: "apply_circle_constraint w
      (filter (\<lambda>i. \<bar>across ! i - c\<bar> \<le> R) [0..<length across]) = Inr (band_hits across c R w)"
    using apply_circle_constraint_ok [OF len] band_hits_filter by simp
  have "list_all (\<lambda>i. i < length along) (band_hits across c R w)"
    using la ll by (simp add: list_all_iff band_hits_def)
  then have t: "np_take along (band_hits across c R w)
      = Inr (map (\<lambda>i. along ! i) (band_hits across c R w))"
    by (simp add: np_take_def)
  show ?thesis by (simp add: line_hits_def c t Let_def)
qed





lemma line_band: "band_hits (d_y line_data) 0 (1 / 2) line_window = [0, 1, 2, 3, 4, 5, 6, 7, 8, 9]"
  by (simp add: band_hits_def in_mask_def line_window_def line_data_def upt_rec [of _ "numeral n" for n]
        upt_rec [of _ "Suc n" for n])


lemma argsort_ten: "np_argsort [0, 1, 2, 3, 4, 5, 6, 7, 8, 9] = [0, 1, 2, 3, 4, 5, 6, 7, 8, 9]"
  by (simp add: np_argsort_def upt_rec [of _ "numeral n" for n] upt_rec [of _ "Suc n" for n])


lemma line_window_wf:
  "length (d_x (data (state line_window))) = length (d_y (data (state line_window)))"
  "length (d_x (data (state masked_window))) = length (d_y (data (state masked_window)))"
  "length (assignment (state line_window)) = length (d_x (data (state line_window)))"
  "data (state line_window) = line_data" "data (state masked_window) = line_data"
  by (simp_all add: masked_window_def line_window_def line_data_def demo_state_def)

lemma line_hits_plain:
  "line_hits (d_y line_data) (d_x line_data) 0 (1 / 2) 3 1 line_window
     = Inr (Some ([0, 1, 2, 3, 4, 5, 6, 7, 8, 9], [1, 4, 7]))"
proof -
  have "line_hits (d_y line_data) (d_x line_data) 0 (1 / 2) 3 1 line_window =
     (if band_hits (d_y line_data) 0 (1 / 2) line_window = [] then Inr None
      else Inr (Some (map (\<lambda>j. band_hits (d_y line_data) 0 (1 / 2) line_window ! j)
                        (np_argsort (map (\<lambda>i. d_x line_data ! i)
                           (band_hits (d_y line_data) 0 (1 / 2) line_window))),
                      decimate 3 1
                        (map (\<lambda>j. band_hits (d_y line_data) 0 (1 / 2) line_window ! j)
                           (np_argsort (map (\<lambda>i. d_x line_data ! i)
                              (band_hits (d_y line_data) 0 (1 / 2) line_window)))))))"
    by (rule line_hits_eq) (simp_all add: line_window_wf, simp_all add: line_data_def)
  also have "map (\<lambda>i. d_x line_data ! i) (band_hits (d_y line_data) 0 (1 / 2) line_window)
      = [0, 1, 2, 3, 4, 5, 6, 7, 8, 9]"
    by (simp add: line_band) (simp add: line_data_def)
  finally show ?thesis
    by (simp add: line_band argsort_ten decimate_def upt_rec [of _ "numeral n" for n]
          upt_rec [of _ "Suc n" for n])
qed


lemma argsort_three: "np_argsort [1, 4, 7] = [0, 1, 2]"
  by (simp add: np_argsort_def upt_rec [of _ "numeral n" for n] upt_rec [of _ "Suc n" for n])

lemma line_click: "on_mouse_clicked_line ''hline'' (1 / 2) 0 0 line_window = Inr line_clicked"
proof -
  have "window_assign [1, 4, 7] ''toggle''
          (line_window\<lparr>last_line_orientation := Some ''h'', last_line_indices := Some [1, 4, 7]\<rparr>)
        = Inr line_clicked"
    by (simp add: window_assign_def assign_indices_def np_unique_def np_take_def commit_edit_def
          np_put_int32_def np_put_def to_int32_def int_fits_def broadcast_to_def line_window_def
          line_clicked_def demo_state_def Let_def str_nat_digit str_int_def)
  then show ?thesis
    using line_hits_plain
    by (simp add: on_mouse_clicked_line_def Let_def line_window_wf)
      (simp add: line_window_def demo_state_def)
qed

lemma rule_anchors_clicked: "rule_anchors 3 1 line_clicked = Inr (Some [4])"
proof -
  have "np_take (d_x line_data) [1, 4, 7] = Inr [1, 4, 7]"
    by (simp add: np_take_def line_data_def)
  then show ?thesis
    by (simp add: rule_anchors_def line_clicked_def line_window_def demo_state_def Let_def
          argsort_three decimate_def upt_rec [of _ "numeral n" for n]
          upt_rec [of _ "Suc n" for n])
qed




text \<open>
  Claim C4. The code at the claim's own example: ten collinear atoms, a click on their
  line in mode \<^verbatim>\<open>hline\<close>, spacing 3 and offset 1. The band hits sorted along the line are
  the atoms 0, ..., 9; the handler stores the decimated subset 1, 4, 7 as the last line
  selection, not the sorted hits. The selection rule then presets the same spacing and
  offset and applies them to the stored subset: of the atoms of the line only atom 4 is
  left as an anchor.
\<close>

theorem line_click_stores_kept_subset:
  "line_hits (d_y line_data) (d_x line_data) 0 (1 / 2) 3 1 line_window
     = Inr (Some ([0, 1, 2, 3, 4, 5, 6, 7, 8, 9], [1, 4, 7]))
   \<and> on_mouse_clicked_line ''hline'' (1 / 2) 0 0 line_window = Inr line_clicked
   \<and> last_line_indices line_clicked = Some [1, 4, 7]
   \<and> last_line_orientation line_clicked = Some ''h''
   \<and> rule_dialog_defaults line_clicked = (3, 1)
   \<and> rule_anchors 3 1 line_clicked = Inr (Some [4])"
  using line_hits_plain line_click rule_anchors_clicked
  by (simp add: rule_dialog_defaults_def line_clicked_def line_window_def)

section \<open>Proofs: the end of the Atoms block\<close>

lemma split_acc_no_space:
  "\<forall>c \<in> set w. \<not> is_space c \<Longrightarrow> u \<in> set (split_acc s w) \<Longrightarrow> \<forall>c \<in> set u. \<not> is_space c"
proof (induction s arbitrary: w)
  case Nil
  then show ?case by (cases "w = []") simp_all
next
  case (Cons c cs)
  show ?case
  proof (cases "is_space c")
    case True
    show ?thesis
    proof (cases "w = []")
      case True
      with \<open>is_space c\<close> Cons.prems(2) have "u \<in> set (split_acc cs [])" by simp
      then show ?thesis using Cons.IH [of "[]"] by simp
    next
      case False
      with \<open>is_space c\<close> Cons.prems(2) have "u = w \<or> u \<in> set (split_acc cs [])" by simp
      then show ?thesis
      proof
        assume "u = w"
        with Cons.prems(1) show ?thesis by simp
      next
        assume "u \<in> set (split_acc cs [])"
        then show ?thesis using Cons.IH [of "[]"] by simp
      qed
    qed
  next
    case False
    with Cons.prems(2) have "u \<in> set (split_acc cs (w @ [c]))" by simp
    moreover from False Cons.prems(1) have "\<forall>d \<in> set (w @ [c]). \<not> is_space d" by simp
    ultimately show ?thesis using Cons.IH [of "w @ [c]"] by blast
  qed
qed

lemma first_word_no_space: "c \<in> set (first_word s) \<Longrightarrow> \<not> is_space c"
proof -
  assume c: "c \<in> set (first_word s)"
  let ?bare = "lower (strip (before_hash s))"
  from c obtain w ws where w: "split_ws ?bare = w # ws" "first_word s = w"
    by (cases "split_ws ?bare") (auto simp: first_word_def Let_def split: if_splits)
  then have "w \<in> set (split_acc ?bare [])" by (simp add: split_ws_def)
  then have "\<forall>c \<in> set w. \<not> is_space c" using split_acc_no_space [of "[]"] by simp
  with c w show ?thesis by simp
qed

text \<open>No line's first word is a keyword that contains a space.\<close>

lemma two_word_key_never_ends_block:
  assumes "CHR '' '' \<in> set k"
  shows "first_word s \<noteq> k"
proof
  assume "first_word s = k"
  with assms have "CHR '' '' \<in> set (first_word s)" by simp
  then have "\<not> is_space CHR '' ''" by (rule first_word_no_space)
  then show False by (simp add: is_space_def)
qed

text \<open>
  Claim C5 fails on the code. \<^verbatim>\<open>HEADER_KEYS\<close> lists the two-word keywords, but the test
  compares the first whitespace-delimited word of the line with the set, and one word
  never equals a two-word keyword. Here the Atoms section is found at line 0, and the
  block runs through the Pair Coeffs header and its data line up to Velocities, where
  the claim ends it at Pair Coeffs.
\<close>

theorem atoms_block_runs_through_pair_coeffs:
  "find_section coeffs_file ''Atoms'' = Some 0
   \<and> ''pair coeffs'' \<in> set HEADER_KEYS
   \<and> first_word ''Pair Coeffs'' = ''pair''
   \<and> \<not> ends_block ''Pair Coeffs''
   \<and> ends_block ''Velocities''
   \<and> iter_atoms_block coeffs_file 0 =
       [''1 1 0.0 0.0 0.0'', ''2 1 1.0 0.0 0.0'', '''',
        ''Pair Coeffs'', '''', ''1 1 0.5 1.0 2.5'', '''']"
  by code_simp

section \<open>Proofs: project documents\<close>

lemma map_err_inverse:
  assumes "\<And>v. v \<in> set vs \<Longrightarrow> f (g v) = Inr v"
  shows "map_err f (map g vs) = Inr vs"
  using assms by (induction vs) simp_all

lemma asarray_float_saved: "np_asarray_float (JList (map JFloat vs)) = Inr vs"
  by (simp add: np_asarray_float_def map_err_inverse as_float_def)

lemma float_tuple_saved: "float_tuple (JList (map JFloat vs)) = Inr vs"
  by (simp add: float_tuple_def map_err_inverse as_float_def)

lemma int_tuple_saved: "int_tuple (JList (map JInt vs)) = Inr vs"
  by (simp add: int_tuple_def map_err_inverse)

lemma asarray_int_saved:
  assumes "list_all (int_fits bits) vs"
  shows "np_asarray_int bits (JList (map JInt vs)) = Inr vs"
proof -
  have "\<And>v. v \<in> set vs \<Longrightarrow>
      ebind (as_int (JInt v)) (\<lambda>i. if int_fits bits i then Inr i else Inl OverflowError) = Inr v"
    using assms by (simp add: list_all_iff as_int_def ebind_def)
  then show ?thesis by (simp add: np_asarray_int_def map_err_inverse)
qed

lemma load_box_saved: "load_box (save_box b) = Inr b"
  by (simp add: load_box_def save_box_def jget_def ebind_def as_float_def)

lemma load_breather_saved: "load_breather (save_breather b) = Inr b"
  by (simp add: load_breather_def save_breather_def jget_def ebind_def as_float_def)

lemma load_data_saved:
  assumes "list_all (int_fits 64) (d_ids ds)"
  shows "load_data (save_data ds) = Inr ds"
proof -
  have g: "jget (save_data ds) ''box'' = Inr (save_box (d_box ds))"
    "jget (save_data ds) ''ids'' = Inr (JList (map JInt (d_ids ds)))"
    "jget (save_data ds) ''x'' = Inr (JList (map JFloat (d_x ds)))"
    "jget (save_data ds) ''y'' = Inr (JList (map JFloat (d_y ds)))"
    "jget (save_data ds) ''z'' = Inr (JList (map JFloat (d_z ds)))"
    by (simp_all add: save_data_def jget_def)
  show ?thesis
    by (simp add: load_data_def g ebind_def load_box_saved asarray_float_saved
          asarray_int_saved [OF assms])
qed

lemma load_group_step:
  "jget (save_group g) ''gid'' = Inr (JInt (g_gid g))"
  "jget (save_group g) ''name'' = Inr (JStr (g_name g))"
  "jget (save_group g) ''color'' = Inr (JList (map JInt (g_color g)))"
  "jget (save_group g) ''direction'' = Inr (JList (map JFloat (g_direction g)))"
  by (simp_all add: save_group_def jget_def)

lemma update_fresh: "k \<notin> fst ` set kvs \<Longrightarrow> AList.update k v kvs = kvs @ [(k, v)]"
  by (induction kvs) auto

lemma map_entry_last:
  "k \<notin> fst ` set kvs \<Longrightarrow> AList.map_entry k f (kvs @ [(k, v)]) = kvs @ [(k, f v)]"
  by (induction kvs) auto

lemma group_eta:
  "\<lparr>g_gid = g_gid g, g_name = g_name g, g_color = g_color g, g_direction = g_direction g\<rparr> = g"
  by (cases g) simp

lemma load_groups_saved:
  assumes "distinct (map fst (pre @ gs))" "list_all (\<lambda>kg. g_gid (snd kg) = fst kg) gs"
    and "groups st = pre"
  shows "load_groups (map (\<lambda>kg. save_group (snd kg)) gs) st = Inr (st\<lparr>groups := pre @ gs\<rparr>)"
  using assms
proof (induction gs arbitrary: pre st)
  case Nil
  then show ?case by simp
next
  case (Cons kg gs)
  obtain k g where kg: "kg = (k, g)" by (cases kg)
  from Cons.prems(2) kg have gk: "g_gid g = k" by simp
  from Cons.prems(1) kg have fresh: "k \<notin> fst ` set pre" by auto
  let ?st1 = "st\<lparr>groups := pre @ [(k, g)]\<rparr>"
  have step: "load_groups (map (\<lambda>kg. save_group (snd kg)) (kg # gs)) st
      = load_groups (map (\<lambda>kg. save_group (snd kg)) gs) ?st1"
    using fresh Cons.prems(3) kg gk [symmetric]
    by (simp add: load_group_step ebind_def as_int_def as_str_def int_tuple_saved
          float_tuple_saved add_group_def Let_def update_fresh map_entry_last group_eta)
  have "load_groups (map (\<lambda>kg. save_group (snd kg)) gs) ?st1
      = Inr (?st1\<lparr>groups := (pre @ [(k, g)]) @ gs\<rparr>)"
  proof (rule Cons.IH)
    show "distinct (map fst ((pre @ [(k, g)]) @ gs))" using Cons.prems(1) kg by simp
    show "list_all (\<lambda>kg. g_gid (snd kg) = fst kg) gs" using Cons.prems(2) by simp
    show "groups ?st1 = pre @ [(k, g)]" by simp
  qed
  with step kg show ?case by simp
qed


text \<open>
  Claim C2. For a valid state and any view-state bucket, \<^verbatim>\<open>load_project\<close> applied to the
  document of \<^verbatim>\<open>save_project\<close> succeeds and returns the bucket and a state that differs
  from the original at most in its history (empty stacks, default depth): the data set,
  the labels, the group table with its order, the localization parameters and both mode
  flags are the original ones.
\<close>

theorem load_save_roundtrip:
  assumes "valid_state s"
  shows "load_project (save_project s ui) =
           Inr (s\<lparr>undo_stack := [], redo_stack := [], max_history := 100\<rparr>, ui)"
proof -
  let ?d = "save_project s ui"
  from assms have ids: "list_all (int_fits 64) (d_ids (data s))"
    and lab: "list_all (int_fits 32) (assignment s)"
    and dis: "distinct (map fst ([] @ groups s))"
    and key: "list_all (\<lambda>kg. g_gid (snd kg) = fst kg) (groups s)"
    by (simp_all add: valid_state_def)
  have g: "jget ?d ''data'' = Inr (save_data (data s))"
    "jget ?d ''assignment'' = Inr (JList (map JInt (assignment s)))"
    "jget ?d ''groups'' = Inr (JList (map (\<lambda>kg. save_group (snd kg)) (groups s)))"
    "jget ?d ''breather'' = Inr (save_breather (breather s))"
    "jget_default ?d ''apply_localizing'' (JBool True) = Inr (JBool (apply_localizing s))"
    "jget_default ?d ''preserve_base_selection'' (JBool True)
       = Inr (JBool (preserve_base_selection s))"
    "jget_default ?d ''ui'' (JObj []) = Inr ui"
    by (simp_all add: save_project_def jget_def jget_default_def)
  let ?st0 = "(new_state (data s))\<lparr>assignment := assignment s, groups := []\<rparr>"
  have lg: "load_groups (map (\<lambda>kg. save_group (snd kg)) (groups s)) ?st0
      = Inr (?st0\<lparr>groups := [] @ groups s\<rparr>)"
    using dis key by (rule load_groups_saved) simp
  have "load_project ?d =
      Inr (?st0\<lparr>groups := groups s, breather := breather s,
             apply_localizing := apply_localizing s,
             preserve_base_selection := preserve_base_selection s\<rparr>, ui)"
    using lg
    by (simp add: load_project_def g ebind_def load_data_saved [OF ids]
          asarray_int_saved [OF lab] load_breather_saved truthy_def)
  moreover have "?st0\<lparr>groups := groups s, breather := breather s,
             apply_localizing := apply_localizing s,
             preserve_base_selection := preserve_base_selection s\<rparr>
      = s\<lparr>undo_stack := [], redo_stack := [], max_history := 100\<rparr>"
    by (simp add: new_state_def)
  ultimately show ?thesis by simp
qed

theorem load_save_roundtrip_witness:
  "valid_state demo_toggled
   \<and> undo_stack demo_toggled = [demo_edit]
   \<and> load_project (save_project demo_toggled (JObj [(''point_scale'', JInt 100)]))
       = Inr (demo_state\<lparr>assignment := [1, 0, 2, 0]\<rparr>, JObj [(''point_scale'', JInt 100)])"
  using load_save_roundtrip [of demo_toggled "JObj [(''point_scale'', JInt 100)]"]
  by (simp add: valid_state_def int_fits_def demo_toggled_def demo_state_def demo_data_def)

section \<open>Proofs: centre expressions\<close>

lemma both_Raises [simp]: "both Raises rb f = Raises"
  by (simp add: both_def)

lemma both_Val_Raises [simp]: "both (Val a) Raises f = Raises"
  by (simp add: both_def)










end
